theory Spec2Isabelle
  imports Main "HOL-Library.AList"
begin

section \<open>The app icon setup script (scripts/setup_app_icon.py)\<close>

text \<open>
  The script reads one source image, writes resized PNG files into fixed paths, writes
  an iOS manifest (Contents.json) and copies the generated iOS icons beside it.

  The embedding threads an explicit world through every function: the files and the
  directories of the file system, and the trace of every side effect that took place,
  in order (a line printed, a directory tree created, an image saved, the manifest
  written, a file copied). The imaging library (PIL) is not part of the repository;
  its calls are fields of an environment record, each returning either the exception
  it raises or its result. Failures of the operating system beyond those that follow
  from the shape of the file system (permissions, a full disk, an image mode that PNG
  cannot hold) are an oracle of the same record.

  Paths are the literal strings the script computes (POSIX separators, relative to the
  working directory). Text is a list of bytes; the non-ASCII characters the script
  prints are written as their UTF-8 bytes.
\<close>

subsection \<open>Data\<close>

type_synonym path = string

text \<open>An exception, identified by the text that \<open>str(e)\<close> gives.\<close>

type_synonym exc = string

text \<open>One dictionary of the \<open>"images"\<close> list of Contents.json.\<close>

record icon_entry =
  filename :: string
  idiom :: string
  scale :: string
  size_pt :: string

text \<open>The dictionary \<open>contents\<close> of \<open>create_ios_contents_json\<close>.\<close>

record contents =
  images :: "icon_entry list"
  info_author :: string
  info_version :: int

text \<open>
  What a file holds: the PNG encoding of an image (written by \<open>Image.save(path, 'PNG')\<close>),
  the text of \<open>json.dump(contents, f, indent=2)\<close>, or any other bytes.
\<close>

datatype 'img content = PNG 'img | JSON contents | Blob "nat list"

text \<open>The side effects, one constructor per kind of call.\<close>

datatype 'img event =
    Print string
  | MakeDirs path
  | Save path 'img
  | WriteJson path contents
  | Copy2 path path

record 'img world =
  files :: "(path \<times> 'img content) list"
  dirs :: "path list"
  trace :: "'img event list"

text \<open>
  The library calls of the script. \<open>Image_open\<close> decodes what the source file holds;
  \<open>Image_paste dest im box mask\<close> returns \<open>dest\<close> after \<open>dest.paste(im, box, mask)\<close>
  (the library mutates \<open>dest\<close>). \<open>os_error w ev\<close> is the exception, if any, that the
  operating system raises when effect \<open>ev\<close> is attempted in world \<open>w\<close>.
\<close>

record 'img env =
  Image_open :: "'img content \<Rightarrow> exc + 'img"
  Image_size :: "'img \<Rightarrow> int \<times> int"
  Image_mode :: "'img \<Rightarrow> string"
  Image_resize :: "'img \<Rightarrow> int \<times> int \<Rightarrow> exc + 'img"
  Image_new :: "string \<Rightarrow> int \<times> int \<Rightarrow> string \<Rightarrow> exc + 'img"
  Image_paste :: "'img \<Rightarrow> 'img \<Rightarrow> int \<times> int \<Rightarrow> 'img option \<Rightarrow> exc + 'img"
  os_error :: "'img world \<Rightarrow> 'img event \<Rightarrow> exc option"

text \<open>How \<open>main\<close> ends: it returns, \<open>sys.exit(n)\<close> is called, or an exception escapes.\<close>

datatype status = Returned | SystemExit int | Uncaught exc

fun exit_code :: "status \<Rightarrow> int" where
  "exit_code Returned = 0"
| "exit_code (SystemExit n) = n"
| "exit_code (Uncaught e) = 1"

subsection \<open>Strings and paths\<close>

text \<open>\<open>str(n)\<close> for an integer, as an f-string formats it.\<close>

fun str_nat :: "nat \<Rightarrow> string" where
  "str_nat n = (if n < 10 then [''0123456789'' ! n]
                else str_nat (n div 10) @ [''0123456789'' ! (n mod 10)])"

declare str_nat.simps [simp del]

definition str_int :: "int \<Rightarrow> string" where
  "str_int i = (if i < 0 then ''-'' @ str_nat (nat (- i)) else str_nat (nat i))"

text \<open>\<open>str\<close> of a pair of integers: \<open>(1024, 1024)\<close>.\<close>

definition str_size :: "int \<times> int \<Rightarrow> string" where
  "str_size s = ''('' @ str_int (fst s) @ '', '' @ str_int (snd s) @ '')''"

definition endswith :: "string \<Rightarrow> string \<Rightarrow> bool" where
  "endswith s suf = (length suf \<le> length s \<and> drop (length s - length suf) s = suf)"

text \<open>\<open>os.path.join\<close> of two components (POSIX).\<close>

definition os_path_join :: "path \<Rightarrow> path \<Rightarrow> path" where
  "os_path_join a b =
     (if b \<noteq> [] \<and> hd b = CHR ''/'' then b
      else if a = [] \<or> last a = CHR ''/'' then a @ b
      else a @ ''/'' @ b)"

definition dirname :: "path \<Rightarrow> path" where
  "dirname p = rev (drop 1 (dropWhile (\<lambda>c. c \<noteq> CHR ''/'') (rev p)))"

definition basename :: "path \<Rightarrow> path" where
  "basename p = rev (takeWhile (\<lambda>c. c \<noteq> CHR ''/'') (rev p))"

text \<open>The directories that \<open>os.makedirs(p)\<close> makes sure of: \<open>p\<close> and every ancestor.\<close>

definition path_prefixes :: "path \<Rightarrow> path list" where
  "path_prefixes p = [take i p. i \<leftarrow> [1..<length p], p ! i = CHR ''/''] @ [p]"

text \<open>\<open>p\<close> lies under directory \<open>d\<close>.\<close>

definition under :: "path \<Rightarrow> path \<Rightarrow> bool" where
  "under d p = (length d < length p \<and> take (Suc (length d)) p = d @ ''/'')"

text \<open>The name of \<open>p\<close> as an entry of directory \<open>d\<close>, when it is one.\<close>

definition child_name :: "path \<Rightarrow> path \<Rightarrow> string option" where
  "child_name d p =
     (let n = drop (Suc (length d)) p
      in if take (Suc (length d)) p = d @ ''/'' \<and> n \<noteq> [] \<and> CHR ''/'' \<notin> set n
         then Some n else None)"

subsection \<open>The file system\<close>

definition is_file :: "'img world \<Rightarrow> path \<Rightarrow> bool" where
  "is_file w p = (map_of (files w) p \<noteq> None)"

definition is_dir :: "'img world \<Rightarrow> path \<Rightarrow> bool" where
  "is_dir w p = (p \<in> set (dirs w))"

text \<open>\<open>os.path.exists\<close>.\<close>

definition path_exists :: "'img world \<Rightarrow> path \<Rightarrow> bool" where
  "path_exists w p = (is_file w p \<or> is_dir w p)"

text \<open>
  An exception is kept as the text that \<open>str(e)\<close> gives. For the errors of the operating
  system that is the error number, its message and the path as Python shows it, in single
  quotes (the escapes that Python adds to a path with quotes, backslashes or control
  characters are left out).
\<close>

definition quoted :: "path \<Rightarrow> string" where
  "quoted p = [CHR 0x27] @ p @ [CHR 0x27]"

definition no_such_file :: "path \<Rightarrow> exc" where
  "no_such_file p = ''[Errno 2] No such file or directory: '' @ quoted p"

definition file_exists :: "path \<Rightarrow> exc" where
  "file_exists p = ''[Errno 17] File exists: '' @ quoted p"

definition not_a_directory :: "path \<Rightarrow> exc" where
  "not_a_directory p = ''[Errno 20] Not a directory: '' @ quoted p"

definition is_a_directory :: "path \<Rightarrow> exc" where
  "is_a_directory p = ''[Errno 21] Is a directory: '' @ quoted p"

text \<open>An ancestor of \<open>p\<close> is a file.\<close>

definition under_file :: "'img world \<Rightarrow> path \<Rightarrow> bool" where
  "under_file w p = (\<exists>q \<in> set (butlast (path_prefixes p)). is_file w q)"

text \<open>The error of looking up a path that is not there as wanted.\<close>

definition missing_error :: "'img world \<Rightarrow> path \<Rightarrow> exc" where
  "missing_error w p = (if under_file w p then not_a_directory p else no_such_file p)"

text \<open>
  \<open>os.listdir\<close>: the names of the files and directories directly in \<open>d\<close>. The order
  of the result is the operating system's; the model fixes one.
\<close>

definition listdir :: "'img world \<Rightarrow> path \<Rightarrow> exc + string list" where
  "listdir w d =
     (if is_dir w d
      then Inr (remdups (List.map_filter (child_name d) (map fst (files w) @ dirs w)))
      else Inl (if is_file w d then not_a_directory d else missing_error w d))"

text \<open>Opening \<open>p\<close> for writing fails on a directory and in a directory that is missing.\<close>

definition write_error :: "'img world \<Rightarrow> path \<Rightarrow> exc option" where
  "write_error w p =
     (if is_dir w p then Some (is_a_directory p)
      else if dirname p \<noteq> [] \<and> \<not> is_dir w (dirname p) then Some (missing_error w p)
      else None)"

text \<open>\<open>shutil.copy2(s, t)\<close> copies into \<open>t\<close> under the name of \<open>s\<close> when \<open>t\<close> is a directory.\<close>

definition copy_target :: "'img world \<Rightarrow> path \<Rightarrow> path \<Rightarrow> path" where
  "copy_target w s t = (if is_dir w t then os_path_join t (basename s) else t)"

text \<open>
  \<open>os.makedirs(p, exist_ok=True)\<close> goes through \<open>p\<close> and its ancestors, the shortest
  first: below an ancestor that is a file, \<open>mkdir\<close> raises NotADirectoryError; when
  \<open>p\<close> itself is a file, FileExistsError.
\<close>

fun makedirs_message :: "'img world \<Rightarrow> path list \<Rightarrow> exc" where
  "makedirs_message w (q # q' # qs) =
     (if is_file w q then not_a_directory q' else makedirs_message w (q' # qs))"
| "makedirs_message w [q] = file_exists q"
| "makedirs_message w [] = []"

text \<open>
  The failures that the shape of the file system alone decides. \<open>shutil.copy2\<close> opens
  its source for reading, then its destination for writing (in every call of the script
  the two are different files).
\<close>

fun fs_error :: "'img world \<Rightarrow> 'img event \<Rightarrow> exc option" where
  "fs_error w (Print s) = None"
| "fs_error w (MakeDirs p) =
     (if \<exists>q \<in> set (path_prefixes p). is_file w q
      then Some (makedirs_message w (path_prefixes p)) else None)"
| "fs_error w (Save p x) = write_error w p"
| "fs_error w (WriteJson p c) = write_error w p"
| "fs_error w (Copy2 s t) =
     (if \<not> is_file w s
      then Some (if is_dir w s then is_a_directory s else missing_error w s)
      else write_error w (copy_target w s t))"

text \<open>What an effect that succeeds does to the files and directories.\<close>

fun apply_event :: "'img event \<Rightarrow> 'img world \<Rightarrow> 'img world" where
  "apply_event (Print s) w = w"
| "apply_event (MakeDirs p) w =
     w\<lparr>dirs := dirs w @ filter (\<lambda>q. q \<notin> set (dirs w)) (path_prefixes p)\<rparr>"
| "apply_event (Save p x) w = w\<lparr>files := AList.update p (PNG x) (files w)\<rparr>"
| "apply_event (WriteJson p c) w = w\<lparr>files := AList.update p (JSON c) (files w)\<rparr>"
| "apply_event (Copy2 s t) w =
     (case map_of (files w) s of
        None \<Rightarrow> w
      | Some c \<Rightarrow> w\<lparr>files := AList.update (copy_target w s t) c (files w)\<rparr>)"

text \<open>An effect that took place changes the file system and is appended to the trace.\<close>

definition step :: "'img event \<Rightarrow> 'img world \<Rightarrow> 'img world" where
  "step ev w = (apply_event ev w)\<lparr>trace := trace w @ [ev]\<rparr>"

text \<open>Attempting an effect: it raises and changes nothing, or it takes place.\<close>

definition perform :: "'img env \<Rightarrow> 'img world \<Rightarrow> 'img event \<Rightarrow> 'img world \<times> exc option" where
  "perform env w ev =
     (case fs_error w ev of
        Some e \<Rightarrow> (w, Some e)
      | None \<Rightarrow>
         (case os_error env w ev of
            Some e \<Rightarrow> (w, Some e)
          | None \<Rightarrow> (step ev w, None)))"

text \<open>\<open>print(s)\<close>.\<close>

definition print :: "string \<Rightarrow> 'img world \<Rightarrow> 'img world" where
  "print s w = step (Print s) w"


subsection \<open>Characters outside ASCII (UTF-8)\<close>

definition check_mark :: string where
  "check_mark = [CHR 0xE2, CHR 0x9C, CHR 0x85]"

definition cross_mark :: string where
  "cross_mark = [CHR 0xE2, CHR 0x9D, CHR 0x8C]"

definition warning_sign :: string where
  "warning_sign = [CHR 0xE2, CHR 0x9A, CHR 0xA0, CHR 0xEF, CHR 0xB8, CHR 0x8F]"

definition red_apple :: string where
  "red_apple = [CHR 0xF0, CHR 0x9F, CHR 0x8D, CHR 0x8E]"

definition robot_face :: string where
  "robot_face = [CHR 0xF0, CHR 0x9F, CHR 0xA4, CHR 0x96]"

definition convenience_store :: string where
  "convenience_store = [CHR 0xF0, CHR 0x9F, CHR 0x8F, CHR 0xAA]"

definition file_folder :: string where
  "file_folder = [CHR 0xF0, CHR 0x9F, CHR 0x93, CHR 0x81]"

definition party_popper :: string where
  "party_popper = [CHR 0xF0, CHR 0x9F, CHR 0x8E, CHR 0x89]"

definition clipboard :: string where
  "clipboard = [CHR 0xF0, CHR 0x9F, CHR 0x93, CHR 0x8B]"

definition arrows_button :: string where
  "arrows_button = [CHR 0xF0, CHR 0x9F, CHR 0x94, CHR 0x84]"

definition mobile_phone :: string where
  "mobile_phone = [CHR 0xF0, CHR 0x9F, CHR 0x93, CHR 0xB1]"

definition memo :: string where
  "memo = [CHR 0xF0, CHR 0x9F, CHR 0x93, CHR 0x9D]"

definition magnifying_glass :: string where
  "magnifying_glass = [CHR 0xF0, CHR 0x9F, CHR 0x94, CHR 0x8D]"

definition bullet :: string where
  "bullet = [CHR 0xE2, CHR 0x80, CHR 0xA2]"

definition rocket :: string where
  "rocket = [CHR 0xF0, CHR 0x9F, CHR 0x9A, CHR 0x80]"

definition newline :: string where
  "newline = [CHR 0x0A]"

subsection \<open>ICON_SIZES\<close>

text \<open>The three lists of the dictionary \<open>ICON_SIZES\<close>, under their keys.\<close>

definition ICON_SIZES_ios :: "(int \<times> int \<times> string) list" where
  "ICON_SIZES_ios =
    [(1024, 1024, ''ios-marketing''),
     (180, 180, ''iphone-app-60pt@3x''),
     (167, 167, ''ipad-pro-app''),
     (152, 152, ''ipad-app-76pt@2x''),
     (120, 120, ''iphone-app-60pt@2x''),
     (87, 87, ''iphone-settings-29pt@3x''),
     (80, 80, ''iphone-spotlight-40pt@2x''),
     (76, 76, ''ipad-app-76pt@1x''),
     (58, 58, ''iphone-settings-29pt@2x''),
     (40, 40, ''iphone-spotlight-40pt@1x''),
     (29, 29, ''iphone-settings-29pt@1x''),
     (20, 20, ''iphone-notification-20pt@1x'')]"

definition ICON_SIZES_android :: "(int \<times> int \<times> string) list" where
  "ICON_SIZES_android =
    [(192, 192, ''xxxhdpi''),
     (144, 144, ''xxhdpi''),
     (96, 96, ''xhdpi''),
     (72, 72, ''hdpi''),
     (48, 48, ''mdpi'')]"

definition ICON_SIZES_store :: "(int \<times> int \<times> string) list" where
  "ICON_SIZES_store =
    [(512, 512, ''play_store''),
     (1024, 500, ''play_store_feature'')]"

subsection \<open>create_directories\<close>

definition directories :: "path list" where
  "directories =
    [''assets/app_icons/generated/ios'',
     ''assets/app_icons/generated/android'',
     ''assets/app_icons/generated/store'',
     ''android/app/src/main/res/mipmap-xxxhdpi'',
     ''android/app/src/main/res/mipmap-xxhdpi'',
     ''android/app/src/main/res/mipmap-xhdpi'',
     ''android/app/src/main/res/mipmap-hdpi'',
     ''android/app/src/main/res/mipmap-mdpi'',
     ''ios/Runner/Assets.xcassets/AppIcon.appiconset'']"

text \<open>The loop \<open>for directory in directories\<close>; an exception of \<open>os.makedirs\<close> ends it.\<close>

fun makedirs_loop :: "'img env \<Rightarrow> 'img world \<Rightarrow> path list \<Rightarrow> 'img world \<times> exc option" where
  "makedirs_loop env w [] = (w, None)"
| "makedirs_loop env w (directory # rest) =
     (case perform env w (MakeDirs directory) of
        (w1, Some e) \<Rightarrow> (w1, Some e)
      | (w1, None) \<Rightarrow>
          makedirs_loop env
            (print (check_mark @ '' Created directory: '' @ directory) w1) rest)"

definition create_directories :: "'img env \<Rightarrow> 'img world \<Rightarrow> 'img world \<times> exc option" where
  "create_directories env w = makedirs_loop env w directories"

subsection \<open>generate_icons\<close>

definition ios_output_path :: "int \<Rightarrow> int \<Rightarrow> string \<Rightarrow> path" where
  "ios_output_path width height name =
     ''assets/app_icons/generated/ios/icon_'' @ str_int width @ ''x'' @ str_int height
       @ ''_'' @ name @ ''.png''"

definition android_output_path :: "int \<Rightarrow> int \<Rightarrow> string \<Rightarrow> path" where
  "android_output_path width height density =
     ''assets/app_icons/generated/android/icon_'' @ str_int width @ ''x'' @ str_int height
       @ ''_'' @ density @ ''.png''"

definition android_path :: "string \<Rightarrow> path" where
  "android_path density = ''android/app/src/main/res/mipmap-'' @ density @ ''/ic_launcher.png''"

definition android_round_path :: "string \<Rightarrow> path" where
  "android_round_path density =
     ''android/app/src/main/res/mipmap-'' @ density @ ''/ic_launcher_round.png''"

definition store_output_path :: "int \<Rightarrow> int \<Rightarrow> string \<Rightarrow> path" where
  "store_output_path width height name =
     ''assets/app_icons/generated/store/icon_'' @ str_int width @ ''x'' @ str_int height
       @ ''_'' @ name @ ''.png''"

definition feature_graphic_path :: path where
  "feature_graphic_path = ''assets/app_icons/generated/store/feature_graphic_1024x500.png''"

text \<open>The line printed after an icon is saved.\<close>

definition icon_line :: "int \<Rightarrow> int \<Rightarrow> path \<Rightarrow> string" where
  "icon_line width height p =
     ''   '' @ check_mark @ '' '' @ str_int width @ ''x'' @ str_int height @ '' -> '' @ p"

text \<open>The loop over \<open>ICON_SIZES['ios']\<close>.\<close>

fun ios_loop ::
  "'img env \<Rightarrow> 'img \<Rightarrow> 'img world \<Rightarrow> (int \<times> int \<times> string) list \<Rightarrow> 'img world \<times> exc option"
where
  "ios_loop env img w [] = (w, None)"
| "ios_loop env img w ((width, height, name) # rest) =
     (case Image_resize env img (width, height) of
        Inl e \<Rightarrow> (w, Some e)
      | Inr resized \<Rightarrow>
         (let output_path = ios_output_path width height name in
          case perform env w (Save output_path resized) of
            (w1, Some e) \<Rightarrow> (w1, Some e)
          | (w1, None) \<Rightarrow>
              ios_loop env img (print (icon_line width height output_path) w1) rest))"

text \<open>The loop over \<open>ICON_SIZES['android']\<close>: three files for each density.\<close>

fun android_loop ::
  "'img env \<Rightarrow> 'img \<Rightarrow> 'img world \<Rightarrow> (int \<times> int \<times> string) list \<Rightarrow> 'img world \<times> exc option"
where
  "android_loop env img w [] = (w, None)"
| "android_loop env img w ((width, height, density) # rest) =
     (case Image_resize env img (width, height) of
        Inl e \<Rightarrow> (w, Some e)
      | Inr resized \<Rightarrow>
         (case perform env w (Save (android_output_path width height density) resized) of
            (w1, Some e) \<Rightarrow> (w1, Some e)
          | (w1, None) \<Rightarrow>
             (case perform env w1 (Save (android_path density) resized) of
                (w2, Some e) \<Rightarrow> (w2, Some e)
              | (w2, None) \<Rightarrow>
                 (case perform env w2 (Save (android_round_path density) resized) of
                    (w3, Some e) \<Rightarrow> (w3, Some e)
                  | (w3, None) \<Rightarrow>
                      android_loop env img
                        (print (icon_line width height (android_path density)) w3) rest))))"

text \<open>
  The feature graphic: a new 1024 by 500 canvas with the icon, resized to 400 by 400,
  pasted at (312, 50); the icon is its own mask when its mode is RGBA.
\<close>

definition feature_graphic :: "'img env \<Rightarrow> 'img \<Rightarrow> exc + 'img" where
  "feature_graphic env img =
     (case Image_new env ''RGB'' (1024, 500) ''#1976D2'' of
        Inl e \<Rightarrow> Inl e
      | Inr feature_img \<Rightarrow>
         (case Image_resize env img (400, 400) of
            Inl e \<Rightarrow> Inl e
          | Inr icon_resized \<Rightarrow>
              Image_paste env feature_img icon_resized (312, 50)
                (if Image_mode env icon_resized = ''RGBA'' then Some icon_resized else None)))"

text \<open>The loop over \<open>ICON_SIZES['store']\<close>.\<close>

fun store_loop ::
  "'img env \<Rightarrow> 'img \<Rightarrow> 'img world \<Rightarrow> (int \<times> int \<times> string) list \<Rightarrow> 'img world \<times> exc option"
where
  "store_loop env img w [] = (w, None)"
| "store_loop env img w ((width, height, name) # rest) =
     (if width = 1024 \<and> height = 500 then
        (case feature_graphic env img of
           Inl e \<Rightarrow> (w, Some e)
         | Inr feature_img \<Rightarrow>
            (case perform env w (Save feature_graphic_path feature_img) of
               (w1, Some e) \<Rightarrow> (w1, Some e)
             | (w1, None) \<Rightarrow>
                 store_loop env img
                   (print (icon_line width height feature_graphic_path) w1) rest))
      else
        (case Image_resize env img (width, height) of
           Inl e \<Rightarrow> (w, Some e)
         | Inr resized \<Rightarrow>
            (let output_path = store_output_path width height name in
             case perform env w (Save output_path resized) of
               (w1, Some e) \<Rightarrow> (w1, Some e)
             | (w1, None) \<Rightarrow>
                 store_loop env img (print (icon_line width height output_path) w1) rest)))"

text \<open>\<open>Image.open(source_image_path)\<close>: the path is a file that the library can read.\<close>

definition open_image :: "'img env \<Rightarrow> 'img world \<Rightarrow> path \<Rightarrow> exc + 'img" where
  "open_image env w p =
     (case map_of (files w) p of
        None \<Rightarrow> Inl (if is_dir w p then is_a_directory p else missing_error w p)
      | Some c \<Rightarrow> Image_open env c)"

text \<open>The body of the \<open>try\<close> block, with the exception that left it, if any.\<close>

definition generate_body :: "'img env \<Rightarrow> 'img world \<Rightarrow> path \<Rightarrow> 'img world \<times> exc option" where
  "generate_body env w source_image_path =
     (case open_image env w source_image_path of
        Inl e \<Rightarrow> (w, Some e)
      | Inr img \<Rightarrow>
         (let w0 = (if Image_size env img \<noteq> (1024, 1024)
                    then print (warning_sign @ ''  Warning: Source image is ''
                                  @ str_size (Image_size env img)
                                  @ '', recommended: (1024, 1024)'') w
                    else w) in
          case ios_loop env img (print (newline @ red_apple @ '' Generating iOS icons...'') w0)
                 ICON_SIZES_ios of
            (w1, Some e) \<Rightarrow> (w1, Some e)
          | (w1, None) \<Rightarrow>
             (case android_loop env img
                     (print (newline @ robot_face @ '' Generating Android icons...'') w1)
                     ICON_SIZES_android of
                (w2, Some e) \<Rightarrow> (w2, Some e)
              | (w2, None) \<Rightarrow>
                  store_loop env img
                    (print (newline @ convenience_store @ '' Generating store assets...'') w2)
                    ICON_SIZES_store)))"

definition generate_icons :: "'img env \<Rightarrow> 'img world \<Rightarrow> path \<Rightarrow> 'img world \<times> bool" where
  "generate_icons env w source_image_path =
     (if \<not> path_exists w source_image_path then
        (print (cross_mark @ '' Source image not found: '' @ source_image_path) w, False)
      else
        (case generate_body env w source_image_path of
           (w1, None) \<Rightarrow> (w1, True)
         | (w1, Some e) \<Rightarrow> (print (cross_mark @ '' Error generating icons: '' @ e) w1, False)))"

subsection \<open>create_ios_contents_json\<close>

definition image_entry :: "string \<Rightarrow> string \<Rightarrow> string \<Rightarrow> string \<Rightarrow> icon_entry" where
  "image_entry f i sc sz = \<lparr>filename = f, idiom = i, scale = sc, size_pt = sz\<rparr>"

definition ios_contents :: contents where
  "ios_contents =
    \<lparr>images =
      [image_entry ''icon_1024x1024_ios-marketing.png'' ''ios-marketing'' ''1x'' ''1024x1024'',
       image_entry ''icon_180x180_iphone-app-60pt@3x.png'' ''iphone'' ''3x'' ''60x60'',
       image_entry ''icon_120x120_iphone-app-60pt@2x.png'' ''iphone'' ''2x'' ''60x60'',
       image_entry ''icon_87x87_iphone-settings-29pt@3x.png'' ''iphone'' ''3x'' ''29x29'',
       image_entry ''icon_58x58_iphone-settings-29pt@2x.png'' ''iphone'' ''2x'' ''29x29'',
       image_entry ''icon_29x29_iphone-settings-29pt@1x.png'' ''iphone'' ''1x'' ''29x29'',
       image_entry ''icon_80x80_iphone-spotlight-40pt@2x.png'' ''iphone'' ''2x'' ''40x40'',
       image_entry ''icon_40x40_iphone-spotlight-40pt@1x.png'' ''iphone'' ''1x'' ''40x40'',
       image_entry ''icon_20x20_iphone-notification-20pt@1x.png'' ''iphone'' ''1x'' ''20x20'',
       image_entry ''icon_167x167_ipad-pro-app.png'' ''ipad'' ''2x'' ''83.5x83.5'',
       image_entry ''icon_152x152_ipad-app-76pt@2x.png'' ''ipad'' ''2x'' ''76x76'',
       image_entry ''icon_76x76_ipad-app-76pt@1x.png'' ''ipad'' ''1x'' ''76x76''],
     info_author = ''Quanta App Icon Generator'',
     info_version = 1\<rparr>"

definition contents_path :: path where
  "contents_path = ''ios/Runner/Assets.xcassets/AppIcon.appiconset/Contents.json''"

definition create_ios_contents_json :: "'img env \<Rightarrow> 'img world \<Rightarrow> 'img world \<times> exc option" where
  "create_ios_contents_json env w =
     (case perform env w (WriteJson contents_path ios_contents) of
        (w1, Some e) \<Rightarrow> (w1, Some e)
      | (w1, None) \<Rightarrow>
          (print (check_mark @ '' Created iOS Contents.json: '' @ contents_path) w1, None))"

subsection \<open>copy_icons_to_ios\<close>

definition source_dir :: path where
  "source_dir = ''assets/app_icons/generated/ios''"

definition target_dir :: path where
  "target_dir = ''ios/Runner/Assets.xcassets/AppIcon.appiconset''"

text \<open>The loop \<open>for filename in os.listdir(source_dir)\<close>, over the names listed.\<close>

fun copy_loop :: "'img env \<Rightarrow> 'img world \<Rightarrow> string list \<Rightarrow> 'img world \<times> exc option" where
  "copy_loop env w [] = (w, None)"
| "copy_loop env w (name # rest) =
     (if endswith name ''.png'' then
        (let source_path = os_path_join source_dir name;
             target_path = os_path_join target_dir name in
         case perform env w (Copy2 source_path target_path) of
           (w1, Some e) \<Rightarrow> (w1, Some e)
         | (w1, None) \<Rightarrow>
             copy_loop env
               (print (''   '' @ file_folder @ '' Copied '' @ name
                         @ '' to iOS AppIcon.appiconset'') w1) rest)
      else copy_loop env w rest)"

definition copy_icons_to_ios :: "'img env \<Rightarrow> 'img world \<Rightarrow> 'img world \<times> exc option" where
  "copy_icons_to_ios env w =
     (if \<not> path_exists w source_dir then
        (print (cross_mark @ '' iOS icons not found in '' @ source_dir) w, None)
      else
        (case listdir w source_dir of
           Inl e \<Rightarrow> (w, Some e)
         | Inr names \<Rightarrow> copy_loop env w names))"

subsection \<open>print_next_steps\<close>

definition next_steps :: "string list" where
  "next_steps =
    [newline @ party_popper @ '' Icon generation complete!'',
     newline @ clipboard @ '' Next Steps:'',
     ''1. '' @ check_mark @ '' Icons have been generated and placed in the correct directories'',
     ''2. '' @ arrows_button @ '' Clean and rebuild your Flutter project:'',
     ''   flutter clean && flutter pub get'',
     ''3. '' @ mobile_phone @ '' Test on physical devices to verify icon appearance'',
     ''4. '' @ convenience_store
        @ '' Use the store assets in assets/app_icons/generated/store/ for app store submissions'',
     ''5. '' @ memo
        @ '' Update app names in AndroidManifest.xml and Info.plist if not already done'',
     newline @ magnifying_glass @ '' Generated files locations:'',
     ''   '' @ bullet @ '' iOS icons: ios/Runner/Assets.xcassets/AppIcon.appiconset/'',
     ''   '' @ bullet @ '' Android icons: android/app/src/main/res/mipmap-*/'',
     ''   '' @ bullet @ '' Store assets: assets/app_icons/generated/store/'']"

definition print_next_steps :: "'img world \<Rightarrow> 'img world" where
  "print_next_steps w = foldl (\<lambda>w s. print s w) w next_steps"

subsection \<open>main\<close>

definition usage_lines :: "string list" where
  "usage_lines =
    [''Usage: python setup_app_icon.py <source_image_path>'',
     ''Example: python setup_app_icon.py assets/app_icons/quanta_icon_1024.png'']"

text \<open>\<open>argv\<close> is \<open>sys.argv\<close>: the name of the script, then its arguments.\<close>

definition main :: "'img env \<Rightarrow> 'img world \<Rightarrow> string list \<Rightarrow> 'img world \<times> status" where
  "main env w argv =
     (if length argv \<noteq> 2 then
        (foldl (\<lambda>w s. print s w) w usage_lines, SystemExit 1)
      else
        (let source_image = argv ! 1;
             w0 = print (replicate 50 CHR ''='') (print (rocket @ '' Quanta App Icon Setup'') w) in
         case create_directories env w0 of
           (w1, Some e) \<Rightarrow> (w1, Uncaught e)
         | (w1, None) \<Rightarrow>
            (case generate_icons env w1 source_image of
               (w2, True) \<Rightarrow>
                 (case create_ios_contents_json env w2 of
                    (w3, Some e) \<Rightarrow> (w3, Uncaught e)
                  | (w3, None) \<Rightarrow>
                     (case copy_icons_to_ios env w3 of
                        (w4, Some e) \<Rightarrow> (w4, Uncaught e)
                      | (w4, None) \<Rightarrow> (print_next_steps w4, Returned)))
             | (w2, False) \<Rightarrow>
                 (print (cross_mark @ '' Icon generation failed'') w2, SystemExit 1))))"

section \<open>Observing a run\<close>

text \<open>
  \<open>run evs w\<close> is the world after the effects \<open>evs\<close> took place in \<open>w\<close>, one after the
  other; \<open>new_events w w'\<close> are the effects that \<open>w'\<close> has seen since \<open>w\<close>; \<open>saves evs\<close>
  are the images saved among them, with their paths, in order.
\<close>

definition run :: "'img event list \<Rightarrow> 'img world \<Rightarrow> 'img world" where
  "run evs w = fold step evs w"

definition new_events :: "'img world \<Rightarrow> 'img world \<Rightarrow> 'img event list" where
  "new_events w w' = drop (length (trace w)) (trace w')"

fun saved :: "'img event \<Rightarrow> (path \<times> 'img) list" where
  "saved (Save p x) = [(p, x)]"
| "saved _ = []"

definition saves :: "'img event list \<Rightarrow> (path \<times> 'img) list" where
  "saves evs = concat (map saved evs)"

text \<open>
  \<open>ran w res P E\<close>: the call that ended in \<open>res\<close> took the world from \<open>w\<close> through
  effects that all satisfy \<open>P\<close> and are the first of \<open>E\<close>, and through exactly the
  effects \<open>E\<close> when it raised nothing.
\<close>

definition ran ::
  "'img world \<Rightarrow> 'img world \<times> exc option \<Rightarrow> ('img event \<Rightarrow> bool) \<Rightarrow> 'img event list \<Rightarrow> bool"
where
  "ran w res P E =
     (\<exists>evs. fst res = run evs w \<and> (\<forall>ev \<in> set evs. P ev) \<and> (\<exists>rest. E = evs @ rest)
        \<and> (snd res = None \<longrightarrow> evs = E))"

text \<open>The image that \<open>resize\<close> returns, where it returns one.\<close>

definition resized :: "'img env \<Rightarrow> 'img \<Rightarrow> int \<times> int \<Rightarrow> 'img" where
  "resized env img s = projr (Image_resize env img s)"

definition ios_events :: "'img env \<Rightarrow> 'img \<Rightarrow> (int \<times> int \<times> string) list \<Rightarrow> 'img event list" where
  "ios_events env img tbl =
     concat (map (\<lambda>(width, height, name).
       [Save (ios_output_path width height name) (resized env img (width, height)),
        Print (icon_line width height (ios_output_path width height name))]) tbl)"

fun ios_event :: "'img env \<Rightarrow> 'img \<Rightarrow> (int \<times> int \<times> string) list \<Rightarrow> 'img event \<Rightarrow> bool" where
  "ios_event env img tbl (Print s) = True"
| "ios_event env img tbl (Save p x) =
     (\<exists>(width, height, name) \<in> set tbl.
        p = ios_output_path width height name \<and> Image_resize env img (width, height) = Inr x)"
| "ios_event env img tbl _ = False"

definition android_events ::
  "'img env \<Rightarrow> 'img \<Rightarrow> (int \<times> int \<times> string) list \<Rightarrow> 'img event list" where
  "android_events env img tbl =
     concat (map (\<lambda>(width, height, density).
       [Save (android_output_path width height density) (resized env img (width, height)),
        Save (android_path density) (resized env img (width, height)),
        Save (android_round_path density) (resized env img (width, height)),
        Print (icon_line width height (android_path density))]) tbl)"

fun android_event ::
  "'img env \<Rightarrow> 'img \<Rightarrow> (int \<times> int \<times> string) list \<Rightarrow> 'img event \<Rightarrow> bool" where
  "android_event env img tbl (Print s) = True"
| "android_event env img tbl (Save p x) =
     (\<exists>(width, height, density) \<in> set tbl.
        (p = android_output_path width height density \<or> p = android_path density
           \<or> p = android_round_path density)
        \<and> Image_resize env img (width, height) = Inr x)"
| "android_event env img tbl _ = False"

definition store_events ::
  "'img env \<Rightarrow> 'img \<Rightarrow> (int \<times> int \<times> string) list \<Rightarrow> 'img event list" where
  "store_events env img tbl =
     concat (map (\<lambda>(width, height, name).
       if width = 1024 \<and> height = 500
       then [Save feature_graphic_path (projr (feature_graphic env img)),
             Print (icon_line width height feature_graphic_path)]
       else [Save (store_output_path width height name) (resized env img (width, height)),
             Print (icon_line width height (store_output_path width height name))]) tbl)"

fun store_event ::
  "'img env \<Rightarrow> 'img \<Rightarrow> (int \<times> int \<times> string) list \<Rightarrow> 'img event \<Rightarrow> bool" where
  "store_event env img tbl (Print s) = True"
| "store_event env img tbl (Save p x) =
     (\<exists>(width, height, name) \<in> set tbl.
        if width = 1024 \<and> height = 500
        then p = feature_graphic_path \<and> feature_graphic env img = Inr x
        else p = store_output_path width height name
               \<and> Image_resize env img (width, height) = Inr x)"
| "store_event env img tbl _ = False"

text \<open>The lines that \<open>generate_icons\<close> prints besides one per icon.\<close>

definition size_warning :: "int \<times> int \<Rightarrow> string" where
  "size_warning s =
     warning_sign @ ''  Warning: Source image is '' @ str_size s @ '', recommended: (1024, 1024)''"

definition ios_banner :: string where
  "ios_banner = newline @ red_apple @ '' Generating iOS icons...''"

definition android_banner :: string where
  "android_banner = newline @ robot_face @ '' Generating Android icons...''"

definition store_banner :: string where
  "store_banner = newline @ convenience_store @ '' Generating store assets...''"

text \<open>The effects of the \<open>try\<close> block of \<open>generate_icons\<close> when nothing raises.\<close>

definition gen_events :: "'img env \<Rightarrow> 'img \<Rightarrow> 'img event list" where
  "gen_events env img =
     (if Image_size env img \<noteq> (1024, 1024) then [Print (size_warning (Image_size env img))]
      else [])
     @ Print ios_banner # ios_events env img ICON_SIZES_ios
     @ Print android_banner # android_events env img ICON_SIZES_android
     @ Print store_banner # store_events env img ICON_SIZES_store"

text \<open>
  \<open>asset env img p x\<close>: \<open>p\<close> is one of the paths of the script and \<open>x\<close> is the image the
  script computes for it from the source image \<open>img\<close>.
\<close>

definition asset :: "'img env \<Rightarrow> 'img \<Rightarrow> path \<Rightarrow> 'img \<Rightarrow> bool" where
  "asset env img p x =
     (ios_event env img ICON_SIZES_ios (Save p x)
      \<or> android_event env img ICON_SIZES_android (Save p x)
      \<or> store_event env img ICON_SIZES_store (Save p x))"

fun gen_event :: "'img env \<Rightarrow> 'img \<Rightarrow> 'img event \<Rightarrow> bool" where
  "gen_event env img (Print s) = True"
| "gen_event env img (Save p x) = asset env img p x"
| "gen_event env img _ = False"

definition not_found_line :: "path \<Rightarrow> string" where
  "not_found_line p = cross_mark @ '' Source image not found: '' @ p"

definition error_line :: "exc \<Rightarrow> string" where
  "error_line e = cross_mark @ '' Error generating icons: '' @ e"

text \<open>
  A small imaging library to run the script on: an image is its mode, its size and the
  colour of each pixel; resizing takes the nearest pixel (in place of the Lanczos filter),
  a new image has one colour, pasting overwrites the box, a file opens when it holds a
  PNG, and PNG cannot hold the mode CMYK.
\<close>

record image =
  im_mode :: string
  im_size :: "int \<times> int"
  im_pixel :: "int \<times> int \<Rightarrow> string"

definition sample_resize :: "image \<Rightarrow> int \<times> int \<Rightarrow> exc + image" where
  "sample_resize im s =
     (if fst s \<le> 0 \<or> snd s \<le> 0 then Inl ''height and width must be > 0''
      else Inr \<lparr>im_mode = im_mode im, im_size = s,
                im_pixel = (\<lambda>(x, y). im_pixel im (x * fst (im_size im) div fst s,
                                                    y * snd (im_size im) div snd s))\<rparr>)"

definition sample_new :: "string \<Rightarrow> int \<times> int \<Rightarrow> string \<Rightarrow> exc + image" where
  "sample_new m s c = Inr \<lparr>im_mode = m, im_size = s, im_pixel = (\<lambda>_. c)\<rparr>"

definition sample_paste :: "image \<Rightarrow> image \<Rightarrow> int \<times> int \<Rightarrow> image option \<Rightarrow> exc + image" where
  "sample_paste dest im box msk =
     Inr (dest\<lparr>im_pixel := (\<lambda>(x, y).
            if fst box \<le> x \<and> x < fst box + fst (im_size im)
               \<and> snd box \<le> y \<and> y < snd box + snd (im_size im)
            then im_pixel im (x - fst box, y - snd box)
            else im_pixel dest (x, y))\<rparr>)"

definition sample_open :: "image content \<Rightarrow> exc + image" where
  "sample_open c = (case c of PNG im \<Rightarrow> Inr im | _ \<Rightarrow> Inl ''cannot identify image file'')"

definition sample_os_error :: "image world \<Rightarrow> image event \<Rightarrow> exc option" where
  "sample_os_error w ev =
     (case ev of
        Save p x \<Rightarrow> (if im_mode x = ''CMYK'' then Some ''cannot write mode CMYK as PNG'' else None)
      | _ \<Rightarrow> None)"

definition sample_env :: "image env" where
  "sample_env =
     \<lparr>Image_open = sample_open, Image_size = im_size, Image_mode = im_mode,
      Image_resize = sample_resize, Image_new = sample_new, Image_paste = sample_paste,
      os_error = sample_os_error\<rparr>"

text \<open>An image of one colour, and a world that holds it as \<open>icon.png\<close> and nothing else.\<close>

definition plain :: "string \<Rightarrow> int \<times> int \<Rightarrow> string \<Rightarrow> image" where
  "plain m s c = \<lparr>im_mode = m, im_size = s, im_pixel = (\<lambda>_. c)\<rparr>"

definition sample_world :: "image \<Rightarrow> image world" where
  "sample_world im = \<lparr>files = [(''icon.png'', PNG im)], dirs = [], trace = []\<rparr>"

text \<open>The paths that \<open>generate_icons\<close> saves to, in the order of the three loops.\<close>

definition ios_asset_paths :: "path list" where
  "ios_asset_paths =
     map (\<lambda>(width, height, name). ios_output_path width height name) ICON_SIZES_ios"

definition android_asset_paths :: "path list" where
  "android_asset_paths =
     concat (map (\<lambda>(width, height, density).
       [android_output_path width height density, android_path density,
        android_round_path density]) ICON_SIZES_android)"

definition store_asset_paths :: "path list" where
  "store_asset_paths =
     map (\<lambda>(width, height, name).
       if width = 1024 \<and> height = 500 then feature_graphic_path
       else store_output_path width height name) ICON_SIZES_store"

definition asset_paths :: "path list" where
  "asset_paths = ios_asset_paths @ android_asset_paths @ store_asset_paths"

text \<open>An effect that is a line printed or an image saved.\<close>

fun quiet :: "'img event \<Rightarrow> bool" where
  "quiet (Print s) = True"
| "quiet (Save p x) = True"
| "quiet _ = False"

text \<open>
  \<open>savable env w p x\<close>: saving \<open>x\<close> to \<open>p\<close> raises nothing in any world that has the
  directories of \<open>w\<close>.
\<close>

definition savable :: "'img env \<Rightarrow> 'img world \<Rightarrow> path \<Rightarrow> 'img \<Rightarrow> bool" where
  "savable env w p x =
     (\<forall>w'. dirs w' = dirs w \<longrightarrow>
        fs_error w' (Save p x) = None \<and> os_error env w' (Save p x) = None)"

text \<open>
  \<open>library_ok env img\<close>: every call that the script makes on the source image \<open>img\<close>
  returns an image.
\<close>

definition library_ok :: "'img env \<Rightarrow> 'img \<Rightarrow> bool" where
  "library_ok env img =
     ((\<forall>(width, height, name) \<in> set (ICON_SIZES_ios @ ICON_SIZES_android).
         \<exists>x. Image_resize env img (width, height) = Inr x)
      \<and> (\<forall>(width, height, name) \<in> set ICON_SIZES_store.
           if width = 1024 \<and> height = 500 then \<exists>x. feature_graphic env img = Inr x
           else \<exists>x. Image_resize env img (width, height) = Inr x))"

text \<open>The effects of \<open>create_directories\<close> when nothing raises.\<close>

definition created_line :: "path \<Rightarrow> string" where
  "created_line d = check_mark @ '' Created directory: '' @ d"

definition mk_events :: "path list \<Rightarrow> 'img event list" where
  "mk_events ds = concat (map (\<lambda>d. [MakeDirs d, Print (created_line d)]) ds)"

fun mk_event :: "path list \<Rightarrow> 'img event \<Rightarrow> bool" where
  "mk_event ds (Print s) = True"
| "mk_event ds (MakeDirs d) = (d \<in> set ds)"
| "mk_event ds _ = False"

text \<open>Every directory that \<open>create_directories\<close> makes sure of.\<close>

definition all_dirs :: "path list" where
  "all_dirs = concat (map path_prefixes directories)"

text \<open>
  \<open>makeable env w d\<close>: \<open>os.makedirs(d)\<close> raises nothing in any world that has the files
  of \<open>w\<close>.
\<close>

definition makeable :: "'img env \<Rightarrow> 'img world \<Rightarrow> path \<Rightarrow> bool" where
  "makeable env w d =
     (\<forall>w'. files w' = files w \<longrightarrow>
        fs_error w' (MakeDirs d) = None \<and> os_error env w' (MakeDirs d) = None)"

text \<open>The sample world once the directories of the script exist.\<close>

definition sample_ready :: "image \<Rightarrow> image world" where
  "sample_ready im = fst (create_directories sample_env (sample_world im))"

text \<open>The feature graphic that the sample library makes of an image.\<close>

definition sample_feature_graphic :: "image \<Rightarrow> image" where
  "sample_feature_graphic im =
     \<lparr>im_mode = ''RGB'', im_size = (1024, 500),
      im_pixel = (\<lambda>(x, y).
         if 312 \<le> x \<and> x < 312 + 400 \<and> 50 \<le> y \<and> y < 50 + 400
         then im_pixel im ((x - 312) * fst (im_size im) div 400,
                           (y - 50) * snd (im_size im) div 400)
         else ''#1976D2'')\<rparr>"

text \<open>A white image of 512 by 512 pixels, and one in the mode CMYK.\<close>

definition sample_icon :: image where
  "sample_icon = plain ''RGB'' (512, 512) ''#FFFFFF''"

definition cmyk_icon :: image where
  "cmyk_icon = plain ''CMYK'' (1024, 1024) ''#FFFFFF''"

text \<open>The effects of \<open>create_ios_contents_json\<close> when nothing raises.\<close>

definition manifest_events :: "'img event list" where
  "manifest_events =
     [WriteJson contents_path ios_contents,
      Print (check_mark @ '' Created iOS Contents.json: '' @ contents_path)]"

fun manifest_event :: "'img event \<Rightarrow> bool" where
  "manifest_event (Print s) = True"
| "manifest_event (WriteJson p c) = (p = contents_path \<and> c = ios_contents)"
| "manifest_event _ = False"

text \<open>The effects of the loop of \<open>copy_icons_to_ios\<close> over the names listed.\<close>

definition copied_line :: "string \<Rightarrow> string" where
  "copied_line name = ''   '' @ file_folder @ '' Copied '' @ name @ '' to iOS AppIcon.appiconset''"

definition copy_events :: "string list \<Rightarrow> 'img event list" where
  "copy_events names =
     concat (map (\<lambda>name.
       if endswith name ''.png''
       then [Copy2 (os_path_join source_dir name) (os_path_join target_dir name),
             Print (copied_line name)]
       else []) names)"

fun copy_event :: "string list \<Rightarrow> 'img event \<Rightarrow> bool" where
  "copy_event names (Print s) = True"
| "copy_event names (Copy2 s t) =
     (\<exists>name \<in> set names. endswith name ''.png''
        \<and> s = os_path_join source_dir name \<and> t = os_path_join target_dir name)"
| "copy_event names _ = False"

text \<open>A name as \<open>os.listdir\<close> gives it: not empty, and without a separator.\<close>

definition entry_name :: "string \<Rightarrow> bool" where
  "entry_name n = (n \<noteq> [] \<and> CHR ''/'' \<notin> set n)"

text \<open>An effect of \<open>copy_icons_to_ios\<close>: a line printed, or a PNG entry of the source
  directory copied to the same name in the target directory.\<close>

fun copying :: "'img event \<Rightarrow> bool" where
  "copying (Print s) = True"
| "copying (Copy2 s t) =
     (\<exists>n. entry_name n \<and> endswith n ''.png''
        \<and> s = source_dir @ ''/'' @ n \<and> t = target_dir @ ''/'' @ n)"
| "copying _ = False"

definition not_listed_line :: string where
  "not_listed_line = cross_mark @ '' iOS icons not found in '' @ source_dir"

text \<open>
  \<open>performable env w evs\<close>: each effect of \<open>evs\<close> other than a line printed, attempted in
  the world that its predecessors left, raises nothing.
\<close>

fun performable :: "'img env \<Rightarrow> 'img world \<Rightarrow> 'img event list \<Rightarrow> bool" where
  "performable env w [] = True"
| "performable env w (Print s # evs) = performable env (step (Print s) w) evs"
| "performable env w (ev # evs) =
     (fs_error w ev = None \<and> os_error env w ev = None \<and> performable env (step ev w) evs)"

text \<open>The two lines that \<open>main\<close> prints first, and the one it prints when generation fails.\<close>

definition start_events :: "'img event list" where
  "start_events = [Print (rocket @ '' Quanta App Icon Setup''), Print (replicate 50 CHR ''='')]"

definition failed_line :: string where
  "failed_line = cross_mark @ '' Icon generation failed''"

text \<open>
  The worlds that \<open>main\<close> goes through when nothing raises: after its two lines and
  \<open>create_directories\<close>, after \<open>generate_icons\<close> on the image \<open>img\<close>, and after
  \<open>create_ios_contents_json\<close>.
\<close>

definition after_dirs :: "'img world \<Rightarrow> 'img world" where
  "after_dirs w = run (start_events @ mk_events directories) w"

definition after_icons :: "'img env \<Rightarrow> 'img \<Rightarrow> 'img world \<Rightarrow> 'img world" where
  "after_icons env img w = run (gen_events env img) (after_dirs w)"

definition after_manifest :: "'img env \<Rightarrow> 'img \<Rightarrow> 'img world \<Rightarrow> 'img world" where
  "after_manifest env img w = run manifest_events (after_icons env img w)"

section \<open>Lemmas\<close>

lemma run_Nil [simp]: "run [] w = w"
  by (simp add: run_def)

lemma run_Cons [simp]: "run (ev # evs) w = run evs (step ev w)"
  by (simp add: run_def)

lemma run_append: "run (xs @ ys) w = run ys (run xs w)"
  by (simp add: run_def)

lemma trace_step [simp]: "trace (step ev w) = trace w @ [ev]"
  by (simp add: step_def)

lemma trace_run [simp]: "trace (run evs w) = trace w @ evs"
  by (induction evs arbitrary: w) simp_all

lemma new_events_run [simp]: "new_events w (run evs w) = evs"
  by (simp add: new_events_def)

lemma print_run: "print s w = run [Print s] w"
  by (simp add: print_def)

lemma perform_cases:
  assumes "perform env w ev = (w', r)"
  obtains (ok) "r = None" "w' = run [ev] w" "fs_error w ev = None" "os_error env w ev = None"
        | (raised) e where "r = Some e" "w' = w"
proof (cases "fs_error w ev")
  case (Some e)
  with assms have "r = Some e" "w' = w" by (auto simp: perform_def)
  then show ?thesis by (rule raised)
next
  case None
  note fs = this
  show ?thesis
  proof (cases "os_error env w ev")
    case (Some e)
    with fs assms have "r = Some e" "w' = w" by (auto simp: perform_def)
    then show ?thesis by (rule raised)
  next
    case None
    with fs assms have "r = None" "w' = run [ev] w" by (auto simp: perform_def)
    then show ?thesis using fs None by (rule ok)
  qed
qed

lemma saves_Nil [simp]: "saves [] = []"
  by (simp add: saves_def)

lemma saves_Cons [simp]: "saves (ev # evs) = saved ev @ saves evs"
  by (simp add: saves_def)

lemma saves_append [simp]: "saves (xs @ ys) = saves xs @ saves ys"
  by (simp add: saves_def)

lemma perform_bind:
  assumes "(case perform env w ev of (w1, Some e) \<Rightarrow> (w1, Some e) | (w1, None) \<Rightarrow> k w1) = (w', r)"
  shows "(\<exists>e. r = Some e \<and> w' = w)
       \<or> (fs_error w ev = None \<and> os_error env w ev = None \<and> k (run [ev] w) = (w', r))"
proof -
  obtain w1 r1 where p: "perform env w ev = (w1, r1)"
    by (cases "perform env w ev") auto
  from p show ?thesis
  proof (cases rule: perform_cases)
    case ok
    with assms p show ?thesis by simp
  next
    case (raised e)
    with assms p show ?thesis by auto
  qed
qed

lemma ranI:
  assumes "fst res = run evs w" and "\<forall>ev \<in> set evs. P ev" and "E = evs @ rest"
    and "snd res = None \<longrightarrow> evs = E"
  shows "ran w res P E"
proof -
  from assms(3) have "\<exists>rest. E = evs @ rest" by (rule exI)
  with assms(1,2,4) have "fst res = run evs w \<and> (\<forall>ev \<in> set evs. P ev)
      \<and> (\<exists>rest. E = evs @ rest) \<and> (snd res = None \<longrightarrow> evs = E)"
    by (intro conjI)
  then show ?thesis unfolding ran_def by (rule exI)
qed

lemma ranE:
  assumes "ran w res P E"
  obtains evs rest where "fst res = run evs w" and "\<forall>ev \<in> set evs. P ev"
    and "E = evs @ rest" and "snd res = None \<longrightarrow> evs = E"
  using assms unfolding ran_def by (elim exE conjE)

lemma ran_raised: "ran w (w, Some e) P E"
  by (rule ranI [of _ "[]" _ _ _ E]) simp_all

lemma ran_done: "ran w (w, None) P []"
  by (rule ranI [of _ "[]" _ _ _ "[]"]) simp_all

lemma ran_seq:
  assumes "ran (run pre w) res P E" and "\<forall>ev \<in> set pre. P ev"
  shows "ran w res P (pre @ E)"
proof -
  from assms(1) obtain evs rest where evs: "fst res = run evs (run pre w)"
    "\<forall>ev \<in> set evs. P ev" "E = evs @ rest" "snd res = None \<longrightarrow> evs = E"
    by (rule ranE)
  show ?thesis
  proof (rule ranI)
    show "fst res = run (pre @ evs) w" using evs(1) by (simp add: run_append)
    show "\<forall>ev \<in> set (pre @ evs). P ev" using evs(2) assms(2) by auto
    show "pre @ E = (pre @ evs) @ rest" using evs(3) by simp
    show "snd res = None \<longrightarrow> pre @ evs = pre @ E" using evs(4) by simp
  qed
qed

lemma ran_mono:
  assumes "ran w res P E" and "\<And>ev. P ev \<Longrightarrow> Q ev"
  shows "ran w res Q E"
proof -
  from assms(1) obtain evs rest where evs: "fst res = run evs w" "\<forall>ev \<in> set evs. P ev"
    "E = evs @ rest" "snd res = None \<longrightarrow> evs = E"
    by (rule ranE)
  from evs(2) assms(2) have "\<forall>ev \<in> set evs. Q ev" by simp
  with evs(1) show ?thesis using evs(3,4) by (rule ranI)
qed

lemma ran_after:
  assumes "\<forall>ev \<in> set pre. P ev" and "E = pre @ rest"
  shows "ran w (run pre w, Some e) P E"
  using _ assms by (rule ranI) simp_all

lemma ran_perform:
  assumes "P ev" and "ran (run [ev] w) (k (run [ev] w)) P E"
  shows "ran w (case perform env w ev of (w1, Some e) \<Rightarrow> (w1, Some e) | (w1, None) \<Rightarrow> k w1)
           P (ev # E)"
proof -
  obtain w1 r1 where p: "perform env w ev = (w1, r1)"
    by (cases "perform env w ev") auto
  from p show ?thesis
  proof (cases rule: perform_cases)
    case ok
    from assms(1) have "\<forall>e \<in> set [ev]. P e" by simp
    from ran_seq [OF assms(2) this] show ?thesis by (simp add: p ok)
  next
    case (raised e)
    then show ?thesis by (simp add: p ran_raised)
  qed
qed

lemma ran_print:
  assumes "ran (print s w) res P E" and "P (Print s)"
  shows "ran w res P (Print s # E)"
proof -
  from assms(2) have "\<forall>e \<in> set [Print s]. P e" by simp
  moreover from assms(1) have "ran (run [Print s] w) res P E" by (simp add: print_def)
  ultimately show ?thesis using ran_seq [of "[Print s]" w res P E] by simp
qed

lemma ran_bind:
  assumes "ran w r1 P E1" and "\<And>w1. ran w1 (k w1) P E2"
  shows "ran w (case r1 of (w1, Some e) \<Rightarrow> (w1, Some e) | (w1, None) \<Rightarrow> k w1) P (E1 @ E2)"
proof -
  from assms(1) obtain evs rest where evs: "fst r1 = run evs w" "\<forall>ev \<in> set evs. P ev"
    "E1 = evs @ rest" "snd r1 = None \<longrightarrow> evs = E1"
    by (rule ranE)
  show ?thesis
  proof (cases "snd r1")
    case None
    with evs(1,2,4) have r1: "r1 = (run E1 w, None)" and P: "\<forall>ev \<in> set E1. P ev"
      by (auto simp: prod_eq_iff)
    from ran_seq [OF assms(2) P] show ?thesis by (simp add: r1)
  next
    case (Some e)
    with evs have r1: "r1 = (run evs w, Some e)" by (simp add: prod_eq_iff)
    from evs(3) have "E1 @ E2 = evs @ rest @ E2" by simp
    from ran_after [OF evs(2) this] show ?thesis by (simp add: r1)
  qed
qed

lemma ios_event_mono: "ios_event env img tbl ev \<Longrightarrow> ios_event env img (a # tbl) ev"
  by (cases ev) auto

lemma ios_loop_ran:
  "ran w (ios_loop env img w tbl) (ios_event env img tbl) (ios_events env img tbl)"
proof (induction tbl arbitrary: w)
  case Nil
  show ?case by (simp add: ios_events_def ran_done)
next
  case (Cons a tbl)
  obtain width height name where a: "a = (width, height, name)"
    by (cases a) auto
  let ?p = "ios_output_path width height name"
  let ?P = "ios_event env img (a # tbl)"
  show ?case
  proof (cases "Image_resize env img (width, height)")
    case (Inl e)
    then show ?thesis by (simp add: a ran_raised)
  next
    case (Inr x)
    have E: "ios_events env img (a # tbl)
        = Save ?p x # Print (icon_line width height ?p) # ios_events env img tbl"
      using Inr by (simp add: a ios_events_def resized_def)
    have S: "?P (Save ?p x)" using Inr by (simp add: a)
    have "ran w' (ios_loop env img w' tbl) ?P (ios_events env img tbl)" for w'
      using Cons.IH [of w'] by (rule ran_mono) (rule ios_event_mono)
    then have "ran w (case perform env w (Save ?p x) of (w1, Some e) \<Rightarrow> (w1, Some e)
        | (w1, None) \<Rightarrow> ios_loop env img (print (icon_line width height ?p) w1) tbl)
        ?P (ios_events env img (a # tbl))"
      unfolding E by (intro ran_perform ran_print S) simp_all
    then show ?thesis by (simp add: a Inr Let_def)
  qed
qed

lemma android_event_mono: "android_event env img tbl ev \<Longrightarrow> android_event env img (a # tbl) ev"
  by (cases ev) auto

lemma android_loop_ran:
  "ran w (android_loop env img w tbl) (android_event env img tbl) (android_events env img tbl)"
proof (induction tbl arbitrary: w)
  case Nil
  show ?case by (simp add: android_events_def ran_done)
next
  case (Cons a tbl)
  obtain width height density where a: "a = (width, height, density)"
    by (cases a) auto
  let ?p1 = "android_output_path width height density"
  let ?p2 = "android_path density"
  let ?p3 = "android_round_path density"
  let ?P = "android_event env img (a # tbl)"
  show ?case
  proof (cases "Image_resize env img (width, height)")
    case (Inl e)
    then show ?thesis by (simp add: a ran_raised)
  next
    case (Inr x)
    have E: "android_events env img (a # tbl)
        = Save ?p1 x # Save ?p2 x # Save ?p3 x # Print (icon_line width height ?p2)
            # android_events env img tbl"
      using Inr by (simp add: a android_events_def resized_def)
    have S: "?P (Save ?p1 x)" "?P (Save ?p2 x)" "?P (Save ?p3 x)"
      using Inr by (simp_all add: a)
    have "ran w' (android_loop env img w' tbl) ?P (android_events env img tbl)" for w'
      using Cons.IH [of w'] by (rule ran_mono) (rule android_event_mono)
    then have "ran w
       (case perform env w (Save ?p1 x) of
          (w1, Some e) \<Rightarrow> (w1, Some e)
        | (w1, None) \<Rightarrow>
           (case perform env w1 (Save ?p2 x) of
              (w2, Some e) \<Rightarrow> (w2, Some e)
            | (w2, None) \<Rightarrow>
               (case perform env w2 (Save ?p3 x) of
                  (w3, Some e) \<Rightarrow> (w3, Some e)
                | (w3, None) \<Rightarrow>
                    android_loop env img (print (icon_line width height ?p2) w3) tbl)))
        ?P (android_events env img (a # tbl))"
      unfolding E by (intro ran_perform ran_print S) simp_all
    then show ?thesis by (simp add: a Inr)
  qed
qed

lemma store_event_mono: "store_event env img tbl ev \<Longrightarrow> store_event env img (a # tbl) ev"
  by (cases ev) auto

lemma store_loop_ran:
  "ran w (store_loop env img w tbl) (store_event env img tbl) (store_events env img tbl)"
proof (induction tbl arbitrary: w)
  case Nil
  show ?case by (simp add: store_events_def ran_done)
next
  case (Cons a tbl)
  obtain width height name where a: "a = (width, height, name)"
    by (cases a) auto
  let ?P = "store_event env img (a # tbl)"
  have IH: "ran w' (store_loop env img w' tbl) ?P (store_events env img tbl)" for w'
    using Cons.IH [of w'] by (rule ran_mono) (rule store_event_mono)
  show ?case
  proof (cases "width = 1024 \<and> height = 500")
    case True
    let ?p = feature_graphic_path
    show ?thesis
    proof (cases "feature_graphic env img")
      case (Inl e)
      with True show ?thesis by (simp add: a ran_raised)
    next
      case (Inr x)
      have E: "store_events env img (a # tbl)
          = Save ?p x # Print (icon_line width height ?p) # store_events env img tbl"
        using Inr True by (simp add: a store_events_def)
      have S: "?P (Save ?p x)" using Inr True by (simp add: a)
      from IH have "ran w (case perform env w (Save ?p x) of (w1, Some e) \<Rightarrow> (w1, Some e)
          | (w1, None) \<Rightarrow> store_loop env img (print (icon_line width height ?p) w1) tbl)
          ?P (store_events env img (a # tbl))"
        unfolding E by (intro ran_perform ran_print S) simp_all
      with True show ?thesis by (auto simp: a Inr)
    qed
  next
    case False
    let ?p = "store_output_path width height name"
    show ?thesis
    proof (cases "Image_resize env img (width, height)")
      case (Inl e)
      with False show ?thesis by (auto simp: a ran_raised)
    next
      case (Inr x)
      have E: "store_events env img (a # tbl)
          = Save ?p x # Print (icon_line width height ?p) # store_events env img tbl"
        using Inr False by (auto simp: a store_events_def resized_def)
      have S: "?P (Save ?p x)" using Inr False by (auto simp: a)
      from IH have "ran w (case perform env w (Save ?p x) of (w1, Some e) \<Rightarrow> (w1, Some e)
          | (w1, None) \<Rightarrow> store_loop env img (print (icon_line width height ?p) w1) tbl)
          ?P (store_events env img (a # tbl))"
        unfolding E by (intro ran_perform ran_print S) simp_all
      with False show ?thesis by (auto simp: a Inr Let_def)
    qed
  qed
qed

lemma gen_event_ios: "ios_event env img ICON_SIZES_ios ev \<Longrightarrow> gen_event env img ev"
  by (cases ev) (simp_all add: asset_def)

lemma gen_event_android: "android_event env img ICON_SIZES_android ev \<Longrightarrow> gen_event env img ev"
  by (cases ev) (simp_all add: asset_def)

lemma gen_event_store: "store_event env img ICON_SIZES_store ev \<Longrightarrow> gen_event env img ev"
  by (cases ev) (simp_all add: asset_def)

lemma generate_body_ran:
  assumes "open_image env w src = Inr img"
  shows "ran w (generate_body env w src) (gen_event env img) (gen_events env img)"
proof -
  let ?P = "gen_event env img"
  have ios: "ran w' (ios_loop env img w' ICON_SIZES_ios) ?P (ios_events env img ICON_SIZES_ios)"
    for w'
    using ios_loop_ran by (rule ran_mono) (rule gen_event_ios)
  have android: "ran w' (android_loop env img w' ICON_SIZES_android) ?P
      (android_events env img ICON_SIZES_android)" for w'
    using android_loop_ran by (rule ran_mono) (rule gen_event_android)
  have store: "ran w' (store_loop env img w' ICON_SIZES_store) ?P
      (store_events env img ICON_SIZES_store)" for w'
    using store_loop_ran by (rule ran_mono) (rule gen_event_store)
  have tail: "ran w'
     (case ios_loop env img (print ios_banner w') ICON_SIZES_ios of
        (w1, Some e) \<Rightarrow> (w1, Some e)
      | (w1, None) \<Rightarrow>
         (case android_loop env img (print android_banner w1) ICON_SIZES_android of
            (w2, Some e) \<Rightarrow> (w2, Some e)
          | (w2, None) \<Rightarrow> store_loop env img (print store_banner w2) ICON_SIZES_store))
     ?P (Print ios_banner # ios_events env img ICON_SIZES_ios
           @ Print android_banner # android_events env img ICON_SIZES_android
           @ Print store_banner # store_events env img ICON_SIZES_store)" for w'
  proof -
    have s: "ran w2 (store_loop env img (print store_banner w2) ICON_SIZES_store) ?P
        (Print store_banner # store_events env img ICON_SIZES_store)" for w2
      by (rule ran_print [OF store]) simp
    have a: "ran w1
        (case android_loop env img (print android_banner w1) ICON_SIZES_android of
            (w2, Some e) \<Rightarrow> (w2, Some e)
          | (w2, None) \<Rightarrow> store_loop env img (print store_banner w2) ICON_SIZES_store) ?P
        (Print android_banner # android_events env img ICON_SIZES_android
           @ Print store_banner # store_events env img ICON_SIZES_store)" for w1
      using ran_print [OF ran_bind [OF android s], of android_banner w1] by simp
    show ?thesis
      using ran_print [OF ran_bind [OF ios a], of ios_banner w'] by simp
  qed
  note defs = ios_banner_def android_banner_def store_banner_def size_warning_def
  show ?thesis
  proof (cases "Image_size env img = (1024, 1024)")
    case True
    with tail [of w, unfolded defs] show ?thesis
      unfolding generate_body_def gen_events_def defs by (simp add: assms)
  next
    case False
    let ?s = "size_warning (Image_size env img)"
    have "gen_event env img (Print ?s)" by simp
    from ran_print [OF tail [of "print ?s w"] this, unfolded defs] False show ?thesis
      unfolding generate_body_def gen_events_def defs by (simp add: assms)
  qed
qed

lemma generate_body_unreadable:
  "open_image env w src = Inl e \<Longrightarrow> generate_body env w src = (w, Some e)"
  by (simp add: generate_body_def)

text \<open>The four ways \<open>generate_icons\<close> ends.\<close>

lemma generate_icons_cases:
  obtains
    (missing) "\<not> path_exists w src"
      "generate_icons env w src = (run [Print (not_found_line src)] w, False)"
  | (unreadable) e where "path_exists w src" "open_image env w src = Inl e"
      "generate_icons env w src = (run [Print (error_line e)] w, False)"
  | (failed) img evs e where "path_exists w src" "open_image env w src = Inr img"
      "\<forall>ev \<in> set evs. gen_event env img ev"
      "generate_body env w src = (run evs w, Some e)"
      "generate_icons env w src = (run (evs @ [Print (error_line e)]) w, False)"
      "\<exists>rest. gen_events env img = evs @ rest"
  | (succeeded) img where "path_exists w src" "open_image env w src = Inr img"
      "\<forall>ev \<in> set (gen_events env img). gen_event env img ev"
      "generate_body env w src = (run (gen_events env img) w, None)"
      "generate_icons env w src = (run (gen_events env img) w, True)"
proof (cases "path_exists w src")
  case False
  then have "generate_icons env w src = (run [Print (not_found_line src)] w, False)"
    by (simp add: generate_icons_def not_found_line_def print_def)
  with False show ?thesis by (rule missing)
next
  case True
  show ?thesis
  proof (cases "open_image env w src")
    case (Inl e)
    with True have "generate_icons env w src = (run [Print (error_line e)] w, False)"
      by (simp add: generate_icons_def generate_body_unreadable error_line_def print_def)
    with True Inl show ?thesis by (rule unreadable)
  next
    case (Inr img)
    from generate_body_ran [OF Inr] obtain evs rest where
      evs: "fst (generate_body env w src) = run evs w" "\<forall>ev \<in> set evs. gen_event env img ev"
        "snd (generate_body env w src) = None \<longrightarrow> evs = gen_events env img"
      and pre: "gen_events env img = evs @ rest"
      by (rule ranE)
    show ?thesis
    proof (cases "snd (generate_body env w src)")
      case None
      with evs have b: "generate_body env w src = (run (gen_events env img) w, None)"
        and P: "\<forall>ev \<in> set (gen_events env img). gen_event env img ev"
        by (auto simp: prod_eq_iff)
      from True b have "generate_icons env w src = (run (gen_events env img) w, True)"
        by (simp add: generate_icons_def)
      with True Inr P b show ?thesis by (rule succeeded)
    next
      case (Some e)
      with evs have b: "generate_body env w src = (run evs w, Some e)"
        by (simp add: prod_eq_iff)
      from True b have "generate_icons env w src = (run (evs @ [Print (error_line e)]) w, False)"
        by (simp add: generate_icons_def error_line_def print_def run_append)
      moreover from pre have "\<exists>rest. gen_events env img = evs @ rest" by (rule exI)
      ultimately show ?thesis using True Inr evs(2) b by (intro failed)
    qed
  qed
qed

lemma files_step_Print [simp]: "files (step (Print s) w) = files w"
  by (simp add: step_def)

lemma dirs_step_Print [simp]: "dirs (step (Print s) w) = dirs w"
  by (simp add: step_def)

lemma files_run_prints [simp]: "files (run (map Print ss) w) = files w"
  by (induction ss arbitrary: w) simp_all

lemma dirs_run_prints [simp]: "dirs (run (map Print ss) w) = dirs w"
  by (induction ss arbitrary: w) simp_all

lemma print_all_run: "foldl (\<lambda>w s. print s w) w ss = run (map Print ss) w"
  by (induction ss arbitrary: w) (simp_all add: print_def)

lemma saves_ios_events:
  "map fst (saves (ios_events env img tbl))
     = map (\<lambda>(width, height, name). ios_output_path width height name) tbl"
  by (induction tbl) (auto simp: ios_events_def)

lemma saves_android_events:
  "map fst (saves (android_events env img tbl))
     = concat (map (\<lambda>(width, height, density).
         [android_output_path width height density, android_path density,
          android_round_path density]) tbl)"
  by (induction tbl) (auto simp: android_events_def)

lemma saves_store_events:
  "map fst (saves (store_events env img tbl))
     = map (\<lambda>(width, height, name).
         if width = 1024 \<and> height = 500 then feature_graphic_path
         else store_output_path width height name) tbl"
  by (induction tbl) (auto simp: store_events_def)

lemma saves_gen_events: "map fst (saves (gen_events env img)) = asset_paths"
  by (simp add: gen_events_def asset_paths_def ios_asset_paths_def android_asset_paths_def
      store_asset_paths_def saves_ios_events saves_android_events saves_store_events)

lemma gen_event_quiet: "gen_event env img ev \<Longrightarrow> quiet ev"
  by (cases ev) simp_all

lemma saves_quiet_member: "(p, x) \<in> set (saves evs) \<longleftrightarrow> Save p x \<in> set evs"
proof (induction evs)
  case Nil
  show ?case by simp
next
  case (Cons ev evs)
  then show ?case by (cases ev) auto
qed

text \<open>The files after effects that only print and save.\<close>

lemma files_step_Save: "map_of (files (step (Save p x) w)) = (map_of (files w))(p \<mapsto> PNG x)"
  by (simp add: step_def update_conv')

lemma dirs_step_Save [simp]: "dirs (step (Save p x) w) = dirs w"
  by (simp add: step_def)

lemma dirs_run_quiet: "\<forall>ev \<in> set evs. quiet ev \<Longrightarrow> dirs (run evs w) = dirs w"
proof (induction evs arbitrary: w)
  case Nil
  show ?case by simp
next
  case (Cons ev evs)
  then show ?case by (cases ev) simp_all
qed

lemma files_run_quiet:
  "\<forall>ev \<in> set evs. quiet ev \<Longrightarrow>
   map_of (files (run evs w)) p
     = (case map_of (rev (saves evs)) p of
          None \<Rightarrow> map_of (files w) p
        | Some x \<Rightarrow> Some (PNG x))"
proof (induction evs arbitrary: w)
  case Nil
  show ?case by simp
next
  case (Cons ev evs)
  show ?case
  proof (cases ev)
    case (Print s)
    with Cons show ?thesis by (simp split: option.splits)
  next
    case (Save q x)
    with Cons show ?thesis
      by (auto simp: files_step_Save map_add_def split: option.splits)
  qed (use Cons.prems in simp_all)
qed

lemma file_after_saves:
  assumes "\<forall>ev \<in> set evs. quiet ev" and "distinct (map fst (saves evs))"
    and "Save p x \<in> set evs"
  shows "map_of (files (run evs w)) p = Some (PNG x)"
proof -
  from assms(3) have "(p, x) \<in> set (rev (saves evs))"
    by (simp add: saves_quiet_member)
  moreover from assms(2) have "distinct (map fst (rev (saves evs)))"
    by (simp add: rev_map [symmetric])
  ultimately have "map_of (rev (saves evs)) p = Some x"
    by (rule map_of_is_SomeI [rotated])
  then show ?thesis by (simp add: files_run_quiet [OF assms(1)])
qed

lemma file_untouched:
  assumes "\<forall>ev \<in> set evs. quiet ev" and "p \<notin> set (map fst (saves evs))"
  shows "map_of (files (run evs w)) p = map_of (files w) p"
proof -
  from assms(2) have "map_of (rev (saves evs)) p = None"
    by (simp add: map_of_eq_None_iff)
  then show ?thesis by (simp add: files_run_quiet [OF assms(1)])
qed

lemma is_file_after_saves:
  assumes "\<forall>ev \<in> set evs. quiet ev"
  shows "is_file (run evs w) p \<longleftrightarrow> is_file w p \<or> p \<in> set (map fst (saves evs))"
proof (cases "map_of (rev (saves evs)) p")
  case None
  then have "p \<notin> set (map fst (saves evs))"
    by (simp add: map_of_eq_None_iff)
  with None show ?thesis by (simp add: is_file_def files_run_quiet [OF assms])
next
  case (Some x)
  then have "p \<in> set (map fst (saves evs))"
    by (metis map_of_eq_None_iff option.distinct(1) set_map set_rev)
  with Some show ?thesis by (simp add: is_file_def files_run_quiet [OF assms])
qed

lemma str_int_numeral [simp]: "str_int (numeral k) = str_nat (numeral k)"
  by (simp add: str_int_def)

lemma str_nat_numeral [simp]:
  "str_nat (numeral k) = (if (numeral k :: nat) < 10 then [''0123456789'' ! numeral k]
                else str_nat (numeral k div 10) @ [''0123456789'' ! (numeral k mod 10)])"
  by (rule str_nat.simps)

lemma str_nat_small [simp]: "str_nat 0 = ''0''" "str_nat 1 = ''1''" "str_nat (Suc 0) = ''1''"
  by (simp_all add: str_nat.simps)

lemma asset_paths_eq:
  "asset_paths =
    [''assets/app_icons/generated/ios/icon_1024x1024_ios-marketing.png'',
     ''assets/app_icons/generated/ios/icon_180x180_iphone-app-60pt@3x.png'',
     ''assets/app_icons/generated/ios/icon_167x167_ipad-pro-app.png'',
     ''assets/app_icons/generated/ios/icon_152x152_ipad-app-76pt@2x.png'',
     ''assets/app_icons/generated/ios/icon_120x120_iphone-app-60pt@2x.png'',
     ''assets/app_icons/generated/ios/icon_87x87_iphone-settings-29pt@3x.png'',
     ''assets/app_icons/generated/ios/icon_80x80_iphone-spotlight-40pt@2x.png'',
     ''assets/app_icons/generated/ios/icon_76x76_ipad-app-76pt@1x.png'',
     ''assets/app_icons/generated/ios/icon_58x58_iphone-settings-29pt@2x.png'',
     ''assets/app_icons/generated/ios/icon_40x40_iphone-spotlight-40pt@1x.png'',
     ''assets/app_icons/generated/ios/icon_29x29_iphone-settings-29pt@1x.png'',
     ''assets/app_icons/generated/ios/icon_20x20_iphone-notification-20pt@1x.png'',
     ''assets/app_icons/generated/android/icon_192x192_xxxhdpi.png'',
     ''android/app/src/main/res/mipmap-xxxhdpi/ic_launcher.png'',
     ''android/app/src/main/res/mipmap-xxxhdpi/ic_launcher_round.png'',
     ''assets/app_icons/generated/android/icon_144x144_xxhdpi.png'',
     ''android/app/src/main/res/mipmap-xxhdpi/ic_launcher.png'',
     ''android/app/src/main/res/mipmap-xxhdpi/ic_launcher_round.png'',
     ''assets/app_icons/generated/android/icon_96x96_xhdpi.png'',
     ''android/app/src/main/res/mipmap-xhdpi/ic_launcher.png'',
     ''android/app/src/main/res/mipmap-xhdpi/ic_launcher_round.png'',
     ''assets/app_icons/generated/android/icon_72x72_hdpi.png'',
     ''android/app/src/main/res/mipmap-hdpi/ic_launcher.png'',
     ''android/app/src/main/res/mipmap-hdpi/ic_launcher_round.png'',
     ''assets/app_icons/generated/android/icon_48x48_mdpi.png'',
     ''android/app/src/main/res/mipmap-mdpi/ic_launcher.png'',
     ''android/app/src/main/res/mipmap-mdpi/ic_launcher_round.png'',
     ''assets/app_icons/generated/store/icon_512x512_play_store.png'',
     ''assets/app_icons/generated/store/feature_graphic_1024x500.png'']"
  by (simp add: asset_paths_def ios_asset_paths_def android_asset_paths_def
      store_asset_paths_def ICON_SIZES_ios_def ICON_SIZES_android_def ICON_SIZES_store_def
      ios_output_path_def android_output_path_def android_path_def android_round_path_def
      store_output_path_def feature_graphic_path_def)

lemma distinct_asset_paths: "distinct asset_paths"
  unfolding asset_paths_eq by simp

lemma perform_ok:
  "fs_error w ev = None \<Longrightarrow> os_error env w ev = None \<Longrightarrow> perform env w ev = (step ev w, None)"
  by (simp add: perform_def)

lemma perform_savable: "savable env w p x \<Longrightarrow> perform env w (Save p x) = (step (Save p x) w, None)"
  by (simp add: savable_def perform_ok)

lemma savable_cong: "dirs w' = dirs w \<Longrightarrow> savable env w' p x = savable env w p x"
  by (simp add: savable_def)

lemma savable_step_Save [simp]: "savable env (step (Save q y) w) p x = savable env w p x"
  by (rule savable_cong) simp

lemma savable_print [simp]: "savable env (print s w) p x = savable env w p x"
  by (rule savable_cong) (simp add: print_def)

lemma ios_loop_succeeds:
  assumes "\<forall>(width, height, name) \<in> set tbl.
      \<exists>x. Image_resize env img (width, height) = Inr x
         \<and> savable env w (ios_output_path width height name) x"
  shows "ios_loop env img w tbl = (run (ios_events env img tbl) w, None)"
  using assms
proof (induction tbl arbitrary: w)
  case Nil
  show ?case by (simp add: ios_events_def)
next
  case (Cons a tbl)
  obtain width height name where a: "a = (width, height, name)"
    by (cases a) auto
  let ?p = "ios_output_path width height name"
  from Cons.prems a obtain x where x: "Image_resize env img (width, height) = Inr x"
    "savable env w ?p x"
    by auto
  let ?w = "print (icon_line width height ?p) (step (Save ?p x) w)"
  have "ios_loop env img ?w tbl = (run (ios_events env img tbl) ?w, None)"
  proof (rule Cons.IH)
    show "\<forall>(width, height, name) \<in> set tbl.
      \<exists>x. Image_resize env img (width, height) = Inr x
         \<and> savable env ?w (ios_output_path width height name) x"
      using Cons.prems by simp
  qed
  then show ?case
    using x by (simp add: a perform_savable ios_events_def resized_def print_def Let_def)
qed

lemma android_loop_succeeds:
  assumes "\<forall>(width, height, density) \<in> set tbl.
      \<exists>x. Image_resize env img (width, height) = Inr x
         \<and> savable env w (android_output_path width height density) x
         \<and> savable env w (android_path density) x
         \<and> savable env w (android_round_path density) x"
  shows "android_loop env img w tbl = (run (android_events env img tbl) w, None)"
  using assms
proof (induction tbl arbitrary: w)
  case Nil
  show ?case by (simp add: android_events_def)
next
  case (Cons a tbl)
  obtain width height density where a: "a = (width, height, density)"
    by (cases a) auto
  let ?p1 = "android_output_path width height density"
  let ?p2 = "android_path density"
  let ?p3 = "android_round_path density"
  from Cons.prems a obtain x where x: "Image_resize env img (width, height) = Inr x"
    "savable env w ?p1 x" "savable env w ?p2 x" "savable env w ?p3 x"
    by auto
  let ?w = "print (icon_line width height ?p2)
      (step (Save ?p3 x) (step (Save ?p2 x) (step (Save ?p1 x) w)))"
  have "android_loop env img ?w tbl = (run (android_events env img tbl) ?w, None)"
  proof (rule Cons.IH)
    show "\<forall>(width, height, density) \<in> set tbl.
      \<exists>x. Image_resize env img (width, height) = Inr x
         \<and> savable env ?w (android_output_path width height density) x
         \<and> savable env ?w (android_path density) x
         \<and> savable env ?w (android_round_path density) x"
      using Cons.prems by simp
  qed
  then show ?case
    using x by (simp add: a perform_savable android_events_def resized_def print_def)
qed

lemma store_loop_succeeds:
  assumes "\<forall>(width, height, name) \<in> set tbl.
      if width = 1024 \<and> height = 500
      then \<exists>x. feature_graphic env img = Inr x \<and> savable env w feature_graphic_path x
      else \<exists>x. Image_resize env img (width, height) = Inr x
             \<and> savable env w (store_output_path width height name) x"
  shows "store_loop env img w tbl = (run (store_events env img tbl) w, None)"
  using assms
proof (induction tbl arbitrary: w)
  case Nil
  show ?case by (simp add: store_events_def)
next
  case (Cons a tbl)
  obtain width height name where a: "a = (width, height, name)"
    by (cases a) auto
  have rest: "\<forall>(width, height, name) \<in> set tbl.
      if width = 1024 \<and> height = 500
      then \<exists>x. feature_graphic env img = Inr x \<and> savable env (print s (step (Save q y) w)) feature_graphic_path x
      else \<exists>x. Image_resize env img (width, height) = Inr x
             \<and> savable env (print s (step (Save q y) w)) (store_output_path width height name) x"
    for s q y
    using Cons.prems by (auto split: if_splits)
  show ?case
  proof (cases "width = 1024 \<and> height = 500")
    case True
    with Cons.prems a obtain x where x: "feature_graphic env img = Inr x"
      "savable env w feature_graphic_path x"
      by auto
    from Cons.IH [OF rest] True x show ?thesis
      by (auto simp: a perform_savable store_events_def print_def)
  next
    case False
    let ?p = "store_output_path width height name"
    from False Cons.prems a obtain x where x: "Image_resize env img (width, height) = Inr x"
      "savable env w ?p x"
      by auto
    from Cons.IH [OF rest] False x show ?thesis
      by (auto simp: a perform_savable store_events_def resized_def print_def Let_def)
  qed
qed

lemma savable_run_quiet:
  "\<forall>ev \<in> set evs. quiet ev \<Longrightarrow> savable env (run evs w) p x = savable env w p x"
  by (rule savable_cong) (rule dirs_run_quiet)

lemma quiet_ios_events: "\<forall>ev \<in> set (ios_events env img tbl). quiet ev"
  by (induction tbl) (auto simp: ios_events_def)

lemma quiet_android_events: "\<forall>ev \<in> set (android_events env img tbl). quiet ev"
  by (induction tbl) (auto simp: android_events_def)

lemma quiet_store_events: "\<forall>ev \<in> set (store_events env img tbl). quiet ev"
  by (induction tbl) (auto simp: store_events_def)

lemma quiet_gen_events: "\<forall>ev \<in> set (gen_events env img). quiet ev"
  using quiet_ios_events [of env img ICON_SIZES_ios]
    quiet_android_events [of env img ICON_SIZES_android]
    quiet_store_events [of env img ICON_SIZES_store]
  by (auto simp: gen_events_def)

lemma library_ok_ios:
  assumes "library_ok env img" and "(width, height, name) \<in> set ICON_SIZES_ios"
  obtains x where "Image_resize env img (width, height) = Inr x"
proof -
  from assms(1) have "\<forall>(width, height, name) \<in> set (ICON_SIZES_ios @ ICON_SIZES_android).
         \<exists>x. Image_resize env img (width, height) = Inr x"
    by (simp add: library_ok_def)
  from bspec [OF this, of "(width, height, name)"] assms(2) that show ?thesis by auto
qed

lemma library_ok_android:
  assumes "library_ok env img" and "(width, height, name) \<in> set ICON_SIZES_android"
  obtains x where "Image_resize env img (width, height) = Inr x"
proof -
  from assms(1) have "\<forall>(width, height, name) \<in> set (ICON_SIZES_ios @ ICON_SIZES_android).
         \<exists>x. Image_resize env img (width, height) = Inr x"
    by (simp add: library_ok_def)
  from bspec [OF this, of "(width, height, name)"] assms(2) that show ?thesis by auto
qed

lemma library_ok_feature:
  assumes "library_ok env img" and "(1024, 500, name) \<in> set ICON_SIZES_store"
  obtains x where "feature_graphic env img = Inr x"
proof -
  from assms(1) have "\<forall>(width, height, name) \<in> set ICON_SIZES_store.
           if width = 1024 \<and> height = 500 then \<exists>x. feature_graphic env img = Inr x
           else \<exists>x. Image_resize env img (width, height) = Inr x"
    by (simp add: library_ok_def)
  from bspec [OF this, of "(1024, 500, name)"] assms(2) that show ?thesis by auto
qed

lemma library_ok_store:
  assumes "library_ok env img" and "(width, height, name) \<in> set ICON_SIZES_store"
    and "\<not> (width = 1024 \<and> height = 500)"
  obtains x where "Image_resize env img (width, height) = Inr x"
proof -
  from assms(1) have "\<forall>(width, height, name) \<in> set ICON_SIZES_store.
           if width = 1024 \<and> height = 500 then \<exists>x. feature_graphic env img = Inr x
           else \<exists>x. Image_resize env img (width, height) = Inr x"
    by (simp add: library_ok_def)
  from bspec [OF this, of "(width, height, name)"] assms(2,3) that show ?thesis by auto
qed

lemma generate_body_succeeds:
  assumes opened: "open_image env w src = Inr img"
    and lib: "library_ok env img"
    and sav: "\<forall>p x. asset env img p x \<longrightarrow> savable env w p x"
  shows "generate_body env w src = (run (gen_events env img) w, None)"
proof -
  have ios: "ios_loop env img w' ICON_SIZES_ios
      = (run (ios_events env img ICON_SIZES_ios) w', None)" if "dirs w' = dirs w" for w'
  proof (rule ios_loop_succeeds, clarify)
    fix width height name
    assume m: "(width, height, name) \<in> set ICON_SIZES_ios"
    with lib obtain x where x: "Image_resize env img (width, height) = Inr x"
      by (rule library_ok_ios)
    with m have "asset env img (ios_output_path width height name) x"
      by (auto simp: asset_def)
    with sav have "savable env w' (ios_output_path width height name) x"
      by (simp add: savable_cong [OF that])
    with x show "\<exists>x. Image_resize env img (width, height) = Inr x
        \<and> savable env w' (ios_output_path width height name) x"
      by blast
  qed
  have android: "android_loop env img w' ICON_SIZES_android
      = (run (android_events env img ICON_SIZES_android) w', None)" if "dirs w' = dirs w" for w'
  proof (rule android_loop_succeeds, clarify)
    fix width height density
    assume m: "(width, height, density) \<in> set ICON_SIZES_android"
    with lib obtain x where x: "Image_resize env img (width, height) = Inr x"
      by (rule library_ok_android)
    with m have "asset env img (android_output_path width height density) x"
      "asset env img (android_path density) x" "asset env img (android_round_path density) x"
      by (auto simp: asset_def)
    with sav have "savable env w' (android_output_path width height density) x"
      "savable env w' (android_path density) x" "savable env w' (android_round_path density) x"
      by (simp_all add: savable_cong [OF that])
    with x show "\<exists>x. Image_resize env img (width, height) = Inr x
         \<and> savable env w' (android_output_path width height density) x
         \<and> savable env w' (android_path density) x
         \<and> savable env w' (android_round_path density) x"
      by blast
  qed
  have store: "store_loop env img w' ICON_SIZES_store
      = (run (store_events env img ICON_SIZES_store) w', None)" if "dirs w' = dirs w" for w'
  proof (rule store_loop_succeeds, clarify)
    fix width height name
    assume m: "(width, height, name) \<in> set ICON_SIZES_store"
    show "if width = 1024 \<and> height = 500
      then \<exists>x. feature_graphic env img = Inr x \<and> savable env w' feature_graphic_path x
      else \<exists>x. Image_resize env img (width, height) = Inr x
             \<and> savable env w' (store_output_path width height name) x"
    proof (cases "width = 1024 \<and> height = 500")
      case True
      with lib m obtain x where x: "feature_graphic env img = Inr x"
        by (auto elim: library_ok_feature)
      with m True have "asset env img feature_graphic_path x"
        by (auto simp: asset_def)
      with sav have "savable env w' feature_graphic_path x"
        by (simp add: savable_cong [OF that])
      with x True show ?thesis by auto
    next
      case False
      from library_ok_store [OF lib m False]
      obtain x where x: "Image_resize env img (width, height) = Inr x" .
      with m False have "asset env img (store_output_path width height name) x"
        by (auto simp: asset_def)
      with sav have "savable env w' (store_output_path width height name) x"
        by (simp add: savable_cong [OF that])
      with x False show ?thesis by auto
    qed
  qed
  have main: "generate_body env w src = (run (gen_events env img) w, None)"
    if warn: "warn = (if Image_size env img \<noteq> (1024, 1024)
      then [Print (size_warning (Image_size env img))] else [])"
      and w0: "(if Image_size env img \<noteq> (1024, 1024)
        then print (size_warning (Image_size env img)) w else w) = run warn w"
      and qw: "\<forall>ev \<in> set warn. quiet ev" for warn
  proof -
    let ?e1 = "warn @ [Print ios_banner]"
    let ?e2 = "?e1 @ ios_events env img ICON_SIZES_ios @ [Print android_banner]"
    let ?e3 = "?e2 @ android_events env img ICON_SIZES_android @ [Print store_banner]"
    have q1: "\<forall>ev \<in> set ?e1. quiet ev" using qw by simp
    have q2: "\<forall>ev \<in> set ?e2. quiet ev"
      using q1 quiet_ios_events [of env img ICON_SIZES_ios] by auto
    have q3: "\<forall>ev \<in> set ?e3. quiet ev"
      using q2 quiet_android_events [of env img ICON_SIZES_android] by auto
    note i = ios [OF dirs_run_quiet [OF q1]]
    note a = android [OF dirs_run_quiet [OF q2]]
    note s = store [OF dirs_run_quiet [OF q3]]
    have "generate_body env w src = (run (?e3 @ store_events env img ICON_SIZES_store) w, None)"
      using i a s w0
      unfolding generate_body_def ios_banner_def android_banner_def store_banner_def
        size_warning_def
      by (simp add: opened print_def run_append)
    then show ?thesis by (simp add: gen_events_def warn)
  qed
  show ?thesis
  proof (cases "Image_size env img = (1024, 1024)")
    case True
    then show ?thesis by (intro main [of "[]"]) simp_all
  next
    case False
    then show ?thesis
      by (intro main [of "[Print (size_warning (Image_size env img))]"])
        (simp_all add: print_def)
  qed
qed

lemma generate_icons_succeeds:
  assumes "path_exists w src" and "open_image env w src = Inr img" and "library_ok env img"
    and "\<forall>p x. asset env img p x \<longrightarrow> savable env w p x"
  shows "generate_icons env w src = (run (gen_events env img) w, True)"
  using assms(1) generate_body_succeeds [OF assms(2-4)] by (simp add: generate_icons_def)

lemma mk_event_mono: "mk_event ds ev \<Longrightarrow> mk_event (d # ds) ev"
  by (cases ev) auto

lemma makedirs_loop_ran: "ran w (makedirs_loop env w ds) (mk_event ds) (mk_events ds)"
proof (induction ds arbitrary: w)
  case Nil
  show ?case by (simp add: mk_events_def ran_done)
next
  case (Cons d ds)
  let ?P = "mk_event (d # ds)"
  have E: "mk_events (d # ds) = MakeDirs d # Print (created_line d) # (mk_events ds :: 'a event list)"
    by (simp add: mk_events_def)
  have "ran w' (makedirs_loop env w' ds) ?P (mk_events ds)" for w'
    using Cons.IH [of w'] by (rule ran_mono) (rule mk_event_mono)
  then have "ran w (case perform env w (MakeDirs d) of (w1, Some e) \<Rightarrow> (w1, Some e)
      | (w1, None) \<Rightarrow> makedirs_loop env (print (created_line d) w1) ds)
      ?P (mk_events (d # ds))"
    unfolding E by (intro ran_perform ran_print) simp_all
  then show ?case unfolding created_line_def by (simp only: makedirs_loop.simps)
qed

lemma create_directories_ran:
  "ran w (create_directories env w) (mk_event directories) (mk_events directories)"
  unfolding create_directories_def by (rule makedirs_loop_ran)

lemma files_step_MakeDirs [simp]: "files (step (MakeDirs d) w) = files w"
  by (simp add: step_def)

lemma dirs_step_MakeDirs:
  "set (dirs (step (MakeDirs d) w)) = set (dirs w) \<union> set (path_prefixes d)"
  by (auto simp: step_def)

lemma files_run_mk_events [simp]: "files (run (mk_events ds) w) = files w"
  by (induction ds arbitrary: w) (simp_all add: mk_events_def)

lemma dirs_run_mk_events:
  "set (dirs (run (mk_events ds) w)) = set (dirs w) \<union> set (concat (map path_prefixes ds))"
  by (induction ds arbitrary: w) (auto simp: mk_events_def dirs_step_MakeDirs)

lemma is_dir_run_mk_events:
  "is_dir (run (mk_events directories) w) q \<longleftrightarrow> is_dir w q \<or> q \<in> set all_dirs"
  by (simp add: is_dir_def dirs_run_mk_events all_dirs_def)

lemma makeable_cong: "files w' = files w \<Longrightarrow> makeable env w' d = makeable env w d"
  by (simp add: makeable_def)

lemma makedirs_loop_succeeds:
  assumes "\<forall>d \<in> set ds. makeable env w d"
  shows "makedirs_loop env w ds = (run (mk_events ds) w, None)"
  using assms
proof (induction ds arbitrary: w)
  case Nil
  show ?case by (simp add: mk_events_def)
next
  case (Cons d ds)
  let ?w = "print (created_line d) (step (MakeDirs d) w)"
  have f: "files ?w = files w" by (simp add: print_def)
  from Cons.prems have "perform env w (MakeDirs d) = (step (MakeDirs d) w, None)"
    by (simp add: makeable_def perform_ok)
  moreover have "makedirs_loop env ?w ds = (run (mk_events ds) ?w, None)"
    using Cons.prems by (intro Cons.IH) (simp add: makeable_cong [OF f])
  ultimately show ?case
    by (simp add: mk_events_def created_line_def print_def)
qed

lemma create_directories_succeeds:
  assumes "\<forall>d \<in> set directories. makeable env w d"
  shows "create_directories env w = (run (mk_events directories) w, None)"
  unfolding create_directories_def using assms by (rule makedirs_loop_succeeds)

lemma all_dirs_eq:
  "all_dirs =
    [''assets'', ''assets/app_icons'', ''assets/app_icons/generated'',
     ''assets/app_icons/generated/ios'',
     ''assets'', ''assets/app_icons'', ''assets/app_icons/generated'',
     ''assets/app_icons/generated/android'',
     ''assets'', ''assets/app_icons'', ''assets/app_icons/generated'',
     ''assets/app_icons/generated/store'',
     ''android'', ''android/app'', ''android/app/src'', ''android/app/src/main'',
     ''android/app/src/main/res'', ''android/app/src/main/res/mipmap-xxxhdpi'',
     ''android'', ''android/app'', ''android/app/src'', ''android/app/src/main'',
     ''android/app/src/main/res'', ''android/app/src/main/res/mipmap-xxhdpi'',
     ''android'', ''android/app'', ''android/app/src'', ''android/app/src/main'',
     ''android/app/src/main/res'', ''android/app/src/main/res/mipmap-xhdpi'',
     ''android'', ''android/app'', ''android/app/src'', ''android/app/src/main'',
     ''android/app/src/main/res'', ''android/app/src/main/res/mipmap-hdpi'',
     ''android'', ''android/app'', ''android/app/src'', ''android/app/src/main'',
     ''android/app/src/main/res'', ''android/app/src/main/res/mipmap-mdpi'',
     ''ios'', ''ios/Runner'', ''ios/Runner/Assets.xcassets'',
     ''ios/Runner/Assets.xcassets/AppIcon.appiconset'']"
  by code_simp

lemma dirname_slash:
  assumes "CHR ''/'' \<notin> set n"
  shows "dirname (d @ ''/'' @ n) = d"
proof -
  from assms have "dropWhile (\<lambda>c. c \<noteq> CHR ''/'') (rev n) = []"
    by (auto simp: dropWhile_eq_Nil_conv)
  then show ?thesis by (simp add: dirname_def dropWhile_append)
qed

lemma no_slash_str_nat: "CHR ''/'' \<notin> set (str_nat n)"
proof (induction n rule: str_nat.induct)
  case (1 n)
  have d: "CHR ''/'' \<noteq> ''0123456789'' ! k" if "k < 10" for k
  proof -
    from that have "k \<in> {0, 1, 2, 3, 4, 5, 6, 7, 8, 9}" by auto
    then show ?thesis by auto
  qed
  show ?case
  proof (cases "n < 10")
    case True
    with d [of n] show ?thesis by (subst str_nat.simps) auto
  next
    case False
    with 1 d [of "n mod 10"] show ?thesis by (subst str_nat.simps) auto
  qed
qed

lemma no_slash_str_int: "CHR ''/'' \<notin> set (str_int i)"
  by (simp add: str_int_def no_slash_str_nat)

lemma no_slash_ios: "(width, height, name) \<in> set ICON_SIZES_ios \<Longrightarrow> CHR ''/'' \<notin> set name"
  by (auto simp: ICON_SIZES_ios_def)

lemma no_slash_android:
  "(width, height, name) \<in> set ICON_SIZES_android \<Longrightarrow> CHR ''/'' \<notin> set name"
  by (auto simp: ICON_SIZES_android_def)

lemma no_slash_store:
  "(width, height, name) \<in> set ICON_SIZES_store \<Longrightarrow> CHR ''/'' \<notin> set name"
  by (auto simp: ICON_SIZES_store_def)

lemma dirname_ios_output_path:
  "CHR ''/'' \<notin> set name \<Longrightarrow>
   dirname (ios_output_path width height name) = ''assets/app_icons/generated/ios''"
  using dirname_slash [of "''icon_'' @ str_int width @ ''x'' @ str_int height @ ''_'' @ name
      @ ''.png''" "''assets/app_icons/generated/ios''"]
  by (simp add: ios_output_path_def no_slash_str_int)

lemma dirname_android_output_path:
  "CHR ''/'' \<notin> set density \<Longrightarrow>
   dirname (android_output_path width height density) = ''assets/app_icons/generated/android''"
  using dirname_slash [of "''icon_'' @ str_int width @ ''x'' @ str_int height @ ''_'' @ density
      @ ''.png''" "''assets/app_icons/generated/android''"]
  by (simp add: android_output_path_def no_slash_str_int)

lemma dirname_store_output_path:
  "CHR ''/'' \<notin> set name \<Longrightarrow>
   dirname (store_output_path width height name) = ''assets/app_icons/generated/store''"
  using dirname_slash [of "''icon_'' @ str_int width @ ''x'' @ str_int height @ ''_'' @ name
      @ ''.png''" "''assets/app_icons/generated/store''"]
  by (simp add: store_output_path_def no_slash_str_int)

lemma dirname_feature_graphic_path:
  "dirname feature_graphic_path = ''assets/app_icons/generated/store''"
  using dirname_slash [of "''feature_graphic_1024x500.png''" "''assets/app_icons/generated/store''"]
  by (simp add: feature_graphic_path_def)

lemma dirname_android_path:
  "dirname (android_path density) = ''android/app/src/main/res/mipmap-'' @ density"
  using dirname_slash [of "''ic_launcher.png''" "''android/app/src/main/res/mipmap-'' @ density"]
  by (simp add: android_path_def)

lemma dirname_android_round_path:
  "dirname (android_round_path density) = ''android/app/src/main/res/mipmap-'' @ density"
  using dirname_slash [of "''ic_launcher_round.png''"
      "''android/app/src/main/res/mipmap-'' @ density"]
  by (simp add: android_round_path_def)

lemma dirname_contents_path:
  "dirname contents_path = ''ios/Runner/Assets.xcassets/AppIcon.appiconset''"
  using dirname_slash [of "''Contents.json''" "''ios/Runner/Assets.xcassets/AppIcon.appiconset''"]
  by (simp add: contents_path_def)

text \<open>The directory of every asset is one of the nine of \<open>create_directories\<close>.\<close>

lemma dirname_asset_paths: "\<forall>p \<in> set asset_paths. dirname p \<in> set directories"
proof -
  have "dirname p \<in> set directories" if "p \<in> set ios_asset_paths" for p
  proof -
    from that obtain width height name where m: "(width, height, name) \<in> set ICON_SIZES_ios"
      and p: "p = ios_output_path width height name"
      by (auto simp: ios_asset_paths_def)
    from no_slash_ios [OF m] show ?thesis
      by (simp add: p dirname_ios_output_path directories_def)
  qed
  moreover have "dirname p \<in> set directories" if "p \<in> set android_asset_paths" for p
  proof -
    from that obtain width height density where
      m: "(width, height, density) \<in> set ICON_SIZES_android"
      and p: "p = android_output_path width height density \<or> p = android_path density
        \<or> p = android_round_path density"
      by (auto simp: android_asset_paths_def)
    from m have "''android/app/src/main/res/mipmap-'' @ density \<in> set directories"
      by (auto simp: ICON_SIZES_android_def directories_def)
    moreover have "''assets/app_icons/generated/android'' \<in> set directories"
      by (simp add: directories_def)
    ultimately show ?thesis
      using p no_slash_android [OF m]
      by (auto simp: dirname_android_output_path dirname_android_path
          dirname_android_round_path)
  qed
  moreover have "dirname p \<in> set directories" if "p \<in> set store_asset_paths" for p
  proof -
    from that obtain width height name where m: "(width, height, name) \<in> set ICON_SIZES_store"
      and p: "p = feature_graphic_path \<or> p = store_output_path width height name"
      by (auto simp: store_asset_paths_def split: if_splits)
    have "''assets/app_icons/generated/store'' \<in> set directories"
      by (simp add: directories_def)
    then show ?thesis
      using p no_slash_store [OF m]
      by (auto simp: dirname_store_output_path dirname_feature_graphic_path)
  qed
  ultimately show ?thesis by (auto simp: asset_paths_def)
qed

lemma last_asset_paths: "\<forall>p \<in> set asset_paths. last p = CHR ''g''"
  by (auto simp: asset_paths_def ios_asset_paths_def android_asset_paths_def
      store_asset_paths_def ios_output_path_def android_output_path_def android_path_def
      android_round_path_def store_output_path_def feature_graphic_path_def)

lemma last_all_dirs: "\<forall>q \<in> set all_dirs. last q \<noteq> CHR ''g''"
  unfolding all_dirs_eq by simp

lemma directories_all_dirs: "set directories \<subseteq> set all_dirs"
  unfolding all_dirs_eq directories_def by simp

lemma ios_loop_None:
  "snd (ios_loop env img w tbl) = None \<Longrightarrow> (width, height, name) \<in> set tbl \<Longrightarrow>
   \<exists>x. Image_resize env img (width, height) = Inr x"
proof (induction tbl arbitrary: w)
  case Nil
  then show ?case by simp
next
  case (Cons a tbl)
  then show ?case
    by (cases a) (auto simp: Let_def split: sum.splits prod.splits option.splits)
qed

lemma android_loop_None:
  "snd (android_loop env img w tbl) = None \<Longrightarrow> (width, height, density) \<in> set tbl \<Longrightarrow>
   \<exists>x. Image_resize env img (width, height) = Inr x"
proof (induction tbl arbitrary: w)
  case Nil
  then show ?case by simp
next
  case (Cons a tbl)
  then show ?case
    by (cases a) (auto simp: Let_def split: sum.splits prod.splits option.splits)
qed

lemma store_loop_None:
  "snd (store_loop env img w tbl) = None \<Longrightarrow> (width, height, name) \<in> set tbl \<Longrightarrow>
   (if width = 1024 \<and> height = 500 then \<exists>x. feature_graphic env img = Inr x
    else \<exists>x. Image_resize env img (width, height) = Inr x)"
proof (induction tbl arbitrary: w)
  case Nil
  then show ?case by simp
next
  case (Cons a tbl)
  then show ?case
    by (cases a) (auto simp: Let_def split: sum.splits prod.splits option.splits if_splits)
qed

lemma generate_body_None:
  assumes "snd (generate_body env w src) = None" and "open_image env w src = Inr img"
  shows "library_ok env img"
proof -
  let ?w0 = "if Image_size env img \<noteq> (1024, 1024)
      then print (warning_sign @ ''  Warning: Source image is '' @ str_size (Image_size env img)
             @ '', recommended: (1024, 1024)'') w
      else w"
  let ?r1 = "ios_loop env img (print (newline @ red_apple @ '' Generating iOS icons...'') ?w0)
      ICON_SIZES_ios"
  let ?r2 = "android_loop env img
      (print (newline @ robot_face @ '' Generating Android icons...'') (fst ?r1))
      ICON_SIZES_android"
  let ?r3 = "store_loop env img
      (print (newline @ convenience_store @ '' Generating store assets...'') (fst ?r2))
      ICON_SIZES_store"
  from assms have "snd ?r1 = None \<and> snd ?r2 = None \<and> snd ?r3 = None"
    by (auto simp: generate_body_def Let_def split: prod.splits option.splits)
  then show ?thesis
    unfolding library_ok_def
    by (auto dest: ios_loop_None android_loop_None store_loop_None)
qed

lemma asset_in_paths:
  assumes "asset env img p x"
  shows "p \<in> set asset_paths"
proof -
  from assms consider
    (ios) "ios_event env img ICON_SIZES_ios (Save p x)"
    | (android) "android_event env img ICON_SIZES_android (Save p x)"
    | (store) "store_event env img ICON_SIZES_store (Save p x)"
    unfolding asset_def by blast
  then show ?thesis
  proof cases
    case ios
    then obtain t where "t \<in> set ICON_SIZES_ios"
      "p = (case t of (width, height, name) \<Rightarrow> ios_output_path width height name)"
      by auto
    then have "p \<in> set ios_asset_paths" unfolding ios_asset_paths_def by simp
    then show ?thesis by (simp add: asset_paths_def)
  next
    case android
    then obtain t where "t \<in> set ICON_SIZES_android"
      "p \<in> set (case t of (width, height, density) \<Rightarrow>
         [android_output_path width height density, android_path density,
          android_round_path density])"
      by auto
    then have "p \<in> set android_asset_paths" unfolding android_asset_paths_def by auto
    then show ?thesis by (simp add: asset_paths_def)
  next
    case store
    then obtain t where "t \<in> set ICON_SIZES_store"
      "p = (case t of (width, height, name) \<Rightarrow>
         if width = 1024 \<and> height = 500 then feature_graphic_path
         else store_output_path width height name)"
      by (auto split: if_splits)
    then have "p \<in> set store_asset_paths" unfolding store_asset_paths_def by simp
    then show ?thesis by (simp add: asset_paths_def)
  qed
qed

lemma write_error_cong:
  "dirs w' = dirs w \<Longrightarrow> write_error w' p = None \<longleftrightarrow> write_error w p = None"
  by (simp add: write_error_def is_dir_def)

lemma write_error_None:
  "\<not> is_dir w p \<Longrightarrow> is_dir w (dirname p) \<Longrightarrow> write_error w p = None"
  by (simp add: write_error_def)

lemma sample_feature: "feature_graphic sample_env im = Inr (sample_feature_graphic im)"
  by (auto simp: feature_graphic_def sample_env_def sample_new_def sample_resize_def
      sample_paste_def sample_feature_graphic_def fun_eq_iff)

lemma sample_library_ok: "library_ok sample_env im"
  by (simp add: library_ok_def sample_feature ICON_SIZES_ios_def ICON_SIZES_android_def
      ICON_SIZES_store_def)
    (simp add: sample_env_def sample_resize_def)

lemma sample_resize_mode: "Image_resize sample_env im s = Inr x \<Longrightarrow> im_mode x = im_mode im"
  by (auto simp: sample_env_def sample_resize_def split: if_splits)

lemma sample_asset_mode:
  "asset sample_env im p x \<Longrightarrow> im_mode x = im_mode im \<or> im_mode x = ''RGB''"
  by (auto simp: asset_def sample_feature sample_feature_graphic_def
      dest: sample_resize_mode split: if_splits)

lemma sample_ready_eq: "sample_ready im = run (mk_events directories) (sample_world im)"
proof -
  have "makeable sample_env (sample_world im) d" if "d \<in> set directories" for d
  proof -
    have "q \<noteq> ''icon.png''" if "q \<in> set (path_prefixes d)" for q
    proof -
      from that \<open>d \<in> set directories\<close> have "q \<in> set all_dirs"
        by (auto simp: all_dirs_def)
      with last_all_dirs show ?thesis by auto
    qed
    then show ?thesis
      by (auto simp: makeable_def is_file_def sample_world_def sample_env_def
          sample_os_error_def)
  qed
  then show ?thesis
    by (simp add: sample_ready_def create_directories_succeeds)
qed

lemma is_dir_sample_ready: "is_dir (sample_ready im) q \<longleftrightarrow> q \<in> set all_dirs"
  by (simp add: sample_ready_eq is_dir_run_mk_events) (simp add: is_dir_def sample_world_def)

lemma files_sample_ready: "files (sample_ready im) = [(''icon.png'', PNG im)]"
  by (simp add: sample_ready_eq sample_world_def)

lemma sample_ready_savable:
  assumes "im_mode im \<noteq> ''CMYK''" and "asset sample_env im p x"
  shows "savable sample_env (sample_ready im) p x"
proof -
  from assms(2) have p: "p \<in> set asset_paths" by (rule asset_in_paths)
  with last_asset_paths last_all_dirs have "p \<notin> set all_dirs" by auto
  moreover from p dirname_asset_paths directories_all_dirs have "dirname p \<in> set all_dirs"
    by auto
  ultimately have we: "write_error (sample_ready im) p = None"
    by (simp add: write_error_None is_dir_sample_ready)
  from sample_asset_mode [OF assms(2)] assms(1) have m: "im_mode x \<noteq> ''CMYK''"
    by auto
  show ?thesis
    unfolding savable_def
  proof (intro allI impI conjI)
    fix w' :: "image world"
    assume "dirs w' = dirs (sample_ready im)"
    from write_error_cong [OF this] we show "fs_error w' (Save p x) = None" by simp
    from m show "os_error sample_env w' (Save p x) = None"
      by (simp add: sample_env_def sample_os_error_def)
  qed
qed

lemma sample_open: "open_image sample_env (sample_ready im) ''icon.png'' = Inr im"
  by (simp add: open_image_def files_sample_ready sample_env_def sample_open_def)

lemma sample_exists: "path_exists (sample_ready im) ''icon.png''"
  by (simp add: path_exists_def is_file_def files_sample_ready)

lemma sample_generate:
  assumes "im_mode im \<noteq> ''CMYK''"
  shows "generate_icons sample_env (sample_ready im) ''icon.png''
    = (run (gen_events sample_env im) (sample_ready im), True)"
  using sample_exists sample_open sample_library_ok
proof (rule generate_icons_succeeds)
  show "\<forall>p x. asset sample_env im p x \<longrightarrow> savable sample_env (sample_ready im) p x"
    using assms by (simp add: sample_ready_savable)
qed

lemma ran_world: "ran w res P E \<Longrightarrow> \<exists>evs. fst res = run evs w \<and> (\<forall>ev \<in> set evs. P ev)"
  by (erule ranE) (intro exI conjI)

text \<open>The \<open>try\<close> block starts with the warning, if any, and the iOS banner.\<close>

lemma generate_body_start:
  assumes "open_image env w src = Inr img"
  shows "\<exists>rest. fst (generate_body env w src)
    = run ((if Image_size env img \<noteq> (1024, 1024)
            then [Print (size_warning (Image_size env img))] else [])
           @ Print ios_banner # rest) w"
proof -
  let ?T = "\<lambda>_ :: 'a event. True"
  let ?warn = "if Image_size env img \<noteq> (1024, 1024)
      then [Print (size_warning (Image_size env img))] else []"
  let ?IE = "ios_events env img ICON_SIZES_ios"
  let ?AE = "android_events env img ICON_SIZES_android"
  let ?SE = "store_events env img ICON_SIZES_store"
  have ios: "ran w' (ios_loop env img w' ICON_SIZES_ios) ?T ?IE" for w'
    by (rule ran_mono [OF ios_loop_ran]) simp
  have android: "ran w' (android_loop env img w' ICON_SIZES_android) ?T ?AE" for w'
    by (rule ran_mono [OF android_loop_ran]) simp
  have store: "ran w' (store_loop env img w' ICON_SIZES_store) ?T ?SE" for w'
    by (rule ran_mono [OF store_loop_ran]) simp
  have s: "ran w2 (store_loop env img (print store_banner w2) ICON_SIZES_store) ?T
      (Print store_banner # ?SE)" for w2
    by (rule ran_print [OF store]) simp
  have a: "ran w1
      (case android_loop env img (print android_banner w1) ICON_SIZES_android of
         (w2, Some e) \<Rightarrow> (w2, Some e)
       | (w2, None) \<Rightarrow> store_loop env img (print store_banner w2) ICON_SIZES_store)
      ?T (Print android_banner # ?AE @ Print store_banner # ?SE)" for w1
    by (rule ran_print [OF ran_bind [OF android s]]) simp
  let ?w1 = "run (?warn @ [Print ios_banner]) w"
  have "ran ?w1
      (case ios_loop env img ?w1 ICON_SIZES_ios of
         (w1, Some e) \<Rightarrow> (w1, Some e)
       | (w1, None) \<Rightarrow>
          (case android_loop env img (print android_banner w1) ICON_SIZES_android of
             (w2, Some e) \<Rightarrow> (w2, Some e)
           | (w2, None) \<Rightarrow> store_loop env img (print store_banner w2) ICON_SIZES_store))
      ?T (?IE @ Print android_banner # ?AE @ Print store_banner # ?SE)"
    by (rule ran_bind [OF ios a])
  from ran_world [OF this] obtain rest where rest:
    "fst (case ios_loop env img ?w1 ICON_SIZES_ios of
         (w1, Some e) \<Rightarrow> (w1, Some e)
       | (w1, None) \<Rightarrow>
          (case android_loop env img (print android_banner w1) ICON_SIZES_android of
             (w2, Some e) \<Rightarrow> (w2, Some e)
           | (w2, None) \<Rightarrow> store_loop env img (print store_banner w2) ICON_SIZES_store))
     = run rest ?w1"
    by blast
  note defs = ios_banner_def android_banner_def store_banner_def size_warning_def
  have "fst (generate_body env w src) = run rest ?w1"
  proof (cases "Image_size env img = (1024, 1024)")
    case True
    with rest [unfolded defs print_def] show ?thesis
      unfolding generate_body_def defs print_def by (simp add: assms)
  next
    case False
    with rest [unfolded defs print_def] show ?thesis
      unfolding generate_body_def defs print_def by (simp add: assms)
  qed
  then have "fst (generate_body env w src) = run (?warn @ Print ios_banner # rest) w"
    by (simp add: run_append)
  then show ?thesis by (rule exI)
qed

lemma generate_icons_start:
  assumes "path_exists w src" and "open_image env w src = Inr img"
  shows "\<exists>rest. new_events w (fst (generate_icons env w src))
    = (if Image_size env img \<noteq> (1024, 1024)
       then [Print (size_warning (Image_size env img))] else [])
      @ Print ios_banner # rest"
proof -
  let ?warn = "if Image_size env img \<noteq> (1024, 1024)
      then [Print (size_warning (Image_size env img))] else []"
  from generate_body_start [OF assms(2)] obtain rest where
    r: "fst (generate_body env w src) = run (?warn @ Print ios_banner # rest) w"
    by blast
  show ?thesis
  proof (cases "snd (generate_body env w src)")
    case None
    with r assms(1) have "fst (generate_icons env w src) = run (?warn @ Print ios_banner # rest) w"
      by (cases "generate_body env w src") (simp add: generate_icons_def)
    then show ?thesis by (simp del: run_Cons)
  next
    case (Some e)
    with r assms(1) have "fst (generate_icons env w src)
        = run (?warn @ Print ios_banner # (rest @ [Print (error_line e)])) w"
      by (cases "generate_body env w src")
        (simp add: generate_icons_def print_def error_line_def run_append)
    then show ?thesis by (simp del: run_Cons)
  qed
qed

lemma ios_events_member:
  "(width, height, name) \<in> set tbl \<Longrightarrow>
   Save (ios_output_path width height name) (resized env img (width, height))
     \<in> set (ios_events env img tbl)"
  by (induction tbl) (auto simp: ios_events_def)

lemma android_events_member:
  "(width, height, density) \<in> set tbl \<Longrightarrow>
   Save (android_path density) (resized env img (width, height))
     \<in> set (android_events env img tbl)
   \<and> Save (android_round_path density) (resized env img (width, height))
     \<in> set (android_events env img tbl)"
  by (induction tbl) (auto simp: android_events_def)

lemma feature_graphic_member:
  "(1024, 500, name) \<in> set tbl \<Longrightarrow>
   Save feature_graphic_path (projr (feature_graphic env img)) \<in> set (store_events env img tbl)"
  unfolding store_events_def by (auto intro!: bexI [of _ "(1024, 500, name)"])

lemma gen_events_ios:
  "ev \<in> set (ios_events env img ICON_SIZES_ios) \<Longrightarrow> ev \<in> set (gen_events env img)"
  by (simp add: gen_events_def)

lemma gen_events_android:
  "ev \<in> set (android_events env img ICON_SIZES_android) \<Longrightarrow> ev \<in> set (gen_events env img)"
  by (simp add: gen_events_def)

lemma gen_events_store:
  "ev \<in> set (store_events env img ICON_SIZES_store) \<Longrightarrow> ev \<in> set (gen_events env img)"
  by (simp add: gen_events_def)

text \<open>When \<open>generate_icons\<close> returns True, its effects are those of a run that raised nothing.\<close>

lemma generate_icons_True:
  assumes "snd (generate_icons env w src)"
  obtains img where "path_exists w src" "open_image env w src = Inr img"
    "library_ok env img" "fst (generate_icons env w src) = run (gen_events env img) w"
proof (cases rule: generate_icons_cases [of w src env])
  case missing
  with assms show ?thesis by simp
next
  case (unreadable e)
  with assms show ?thesis by simp
next
  case (failed img evs e)
  with assms show ?thesis by simp
next
  case (succeeded img)
  from succeeded(4) have "snd (generate_body env w src) = None" by simp
  from generate_body_None [OF this succeeded(2)] succeeded that show ?thesis by simp
qed

lemma perform_refused:
  assumes "fs_error w ev \<noteq> None \<or> os_error env w ev \<noteq> None"
  shows "\<exists>e. perform env w ev = (w, Some e)"
  using assms by (auto simp: perform_def split: option.splits)

text \<open>When the first save is refused, \<open>generate_icons\<close> returns False and has saved nothing.\<close>

lemma generate_icons_refused:
  assumes "path_exists w src" and "open_image env w src = Inr img"
    and "Image_resize env img (1024, 1024) = Inr x"
    and "\<forall>w'. dirs w' = dirs w \<longrightarrow>
      fs_error w' (Save (ios_output_path 1024 1024 ''ios-marketing'') x) \<noteq> None
      \<or> os_error env w' (Save (ios_output_path 1024 1024 ''ios-marketing'') x) \<noteq> None"
  shows "\<not> snd (generate_icons env w src)
    \<and> saves (new_events w (fst (generate_icons env w src))) = []"
proof -
  let ?warn = "if Image_size env img \<noteq> (1024, 1024)
      then [Print (size_warning (Image_size env img))] else []"
  let ?w1 = "run (?warn @ [Print ios_banner]) w"
  have "dirs ?w1 = dirs w" by (intro dirs_run_quiet) simp
  with assms(4) obtain e where
    "perform env ?w1 (Save (ios_output_path 1024 1024 ''ios-marketing'') x) = (?w1, Some e)"
    using perform_refused by blast
  with assms(3) have "ios_loop env img ?w1 ICON_SIZES_ios = (?w1, Some e)"
    by (simp add: ICON_SIZES_ios_def)
  moreover have "(if Image_size env img \<noteq> (1024, 1024)
      then print (warning_sign @ ''  Warning: Source image is '' @ str_size (Image_size env img)
             @ '', recommended: (1024, 1024)'') w
      else w) = run ?warn w"
    by (simp add: print_def size_warning_def)
  ultimately have "generate_body env w src = (?w1, Some e)"
    unfolding generate_body_def Let_def
    by (simp add: assms(2) print_def ios_banner_def run_append)
  with assms(1) have "generate_icons env w src
      = (run (?warn @ [Print ios_banner, Print (error_line e)]) w, False)"
    by (simp add: generate_icons_def print_def error_line_def run_append)
  then show ?thesis by simp
qed

lemma sample_icon_generate:
  "generate_icons sample_env (sample_ready sample_icon) ''icon.png''
    = (run (gen_events sample_env sample_icon) (sample_ready sample_icon), True)"
  by (rule sample_generate) (simp add: sample_icon_def plain_def)

lemma asset_explicit:
  assumes "asset env img p x"
  shows "(\<exists>(width, height, name) \<in> set ICON_SIZES_ios.
        p = ios_output_path width height name \<and> Image_resize env img (width, height) = Inr x)
    \<or> (\<exists>(width, height, density) \<in> set ICON_SIZES_android.
        (p = android_output_path width height density \<or> p = android_path density
           \<or> p = android_round_path density)
        \<and> Image_resize env img (width, height) = Inr x)
    \<or> (\<exists>(width, height, name) \<in> set ICON_SIZES_store.
        (width, height) \<noteq> (1024, 500) \<and> p = store_output_path width height name
        \<and> Image_resize env img (width, height) = Inr x)
    \<or> (p = feature_graphic_path
        \<and> (\<exists>canvas icon.
              Image_new env ''RGB'' (1024, 500) ''#1976D2'' = Inr canvas
              \<and> Image_resize env img (400, 400) = Inr icon
              \<and> Image_paste env canvas icon (312, 50)
                   (if Image_mode env icon = ''RGBA'' then Some icon else None) = Inr x))"
proof -
  from assms consider
    (ios) "ios_event env img ICON_SIZES_ios (Save p x)"
    | (android) "android_event env img ICON_SIZES_android (Save p x)"
    | (store) "store_event env img ICON_SIZES_store (Save p x)"
    unfolding asset_def by blast
  then show ?thesis
  proof cases
    case ios
    then show ?thesis by simp
  next
    case android
    then show ?thesis by simp
  next
    case store
    then obtain width height name where m: "(width, height, name) \<in> set ICON_SIZES_store"
      and c: "if width = 1024 \<and> height = 500
        then p = feature_graphic_path \<and> feature_graphic env img = Inr x
        else p = store_output_path width height name
          \<and> Image_resize env img (width, height) = Inr x"
      by auto
    show ?thesis
    proof (cases "width = 1024 \<and> height = 500")
      case True
      with c have p: "p = feature_graphic_path" and f: "feature_graphic env img = Inr x"
        by simp_all
      from f obtain canvas icon where
        "Image_new env ''RGB'' (1024, 500) ''#1976D2'' = Inr canvas"
        "Image_resize env img (400, 400) = Inr icon"
        "Image_paste env canvas icon (312, 50)
           (if Image_mode env icon = ''RGBA'' then Some icon else None) = Inr x"
        by (auto simp: feature_graphic_def split: sum.splits)
      with p show ?thesis by blast
    next
      case False
      with c have "p = store_output_path width height name"
        "Image_resize env img (width, height) = Inr x" "(width, height) \<noteq> (1024, 500)"
        by auto
      with m have "\<exists>(width, height, name) \<in> set ICON_SIZES_store.
        (width, height) \<noteq> (1024, 500) \<and> p = store_output_path width height name
        \<and> Image_resize env img (width, height) = Inr x"
        by (intro bexI [of _ "(width, height, name)"]) simp_all
      then show ?thesis by blast
    qed
  qed
qed

text \<open>Every image that \<open>generate_icons\<close> saves is an asset of the source image it opened.\<close>

lemma generate_icons_saves_assets:
  assumes "open_image env w src = Inr img"
    and "(p, x) \<in> set (saves (new_events w (fst (generate_icons env w src))))"
  shows "asset env img p x"
proof (cases rule: generate_icons_cases [of w src env])
  case missing
  with assms(2) show ?thesis by (simp del: run_Cons)
next
  case (unreadable e)
  with assms(2) show ?thesis by (simp del: run_Cons)
next
  case (failed img' evs e)
  with assms(1) have "img' = img" by simp
  from assms(2) failed(5) have "Save p x \<in> set evs"
    by (simp add: saves_quiet_member [symmetric])
  with failed(3) \<open>img' = img\<close> have "gen_event env img (Save p x)" by blast
  then show ?thesis by simp
next
  case (succeeded img')
  with assms(1) have "img' = img" by simp
  from assms(2) succeeded(5) have "Save p x \<in> set (gen_events env img')"
    by (simp add: saves_quiet_member [symmetric])
  with succeeded(3) \<open>img' = img\<close> have "gen_event env img (Save p x)" by blast
  then show ?thesis by simp
qed

lemma sample_feature_saved:
  "(feature_graphic_path, sample_feature_graphic sample_icon)
     \<in> set (saves (new_events (sample_ready sample_icon)
          (fst (generate_icons sample_env (sample_ready sample_icon) ''icon.png''))))"
proof -
  have "(1024, 500, ''play_store_feature'') \<in> set ICON_SIZES_store"
    by (simp add: ICON_SIZES_store_def)
  from gen_events_store [OF feature_graphic_member [OF this], of sample_env sample_icon]
  show ?thesis
    by (simp add: sample_icon_generate saves_quiet_member sample_feature)
qed

lemma create_ios_contents_json_ran:
  "ran w (create_ios_contents_json env w) manifest_event manifest_events"
proof -
  have "ran w (case perform env w (WriteJson contents_path ios_contents) of
      (w1, Some e) \<Rightarrow> (w1, Some e)
    | (w1, None) \<Rightarrow> (\<lambda>w1. (print (check_mark @ '' Created iOS Contents.json: '' @ contents_path) w1, None)) w1)
    manifest_event manifest_events"
    unfolding manifest_events_def
  proof (rule ran_perform)
    show "manifest_event (WriteJson contents_path ios_contents)" by simp
    let ?s = "check_mark @ '' Created iOS Contents.json: '' @ contents_path"
    let ?w = "run [WriteJson contents_path ios_contents] w"
    have "ran (print ?s ?w) (print ?s ?w, None) manifest_event []" by (rule ran_done)
    then show "ran ?w (print ?s ?w, None) manifest_event [Print ?s]"
      by (rule ran_print) simp
  qed
  then show ?thesis unfolding create_ios_contents_json_def .
qed

lemma create_ios_contents_json_succeeds:
  assumes "fs_error w (WriteJson contents_path ios_contents) = None"
    and "os_error env w (WriteJson contents_path ios_contents) = None"
  shows "create_ios_contents_json env w = (run manifest_events w, None)"
  using assms
  by (simp add: create_ios_contents_json_def perform_ok manifest_events_def print_def)

lemma copy_event_mono: "copy_event names ev \<Longrightarrow> copy_event (n # names) ev"
  by (cases ev) auto

lemma copy_loop_ran: "ran w (copy_loop env w names) (copy_event names) (copy_events names)"
proof (induction names arbitrary: w)
  case Nil
  show ?case by (simp add: copy_events_def ran_done)
next
  case (Cons n names)
  let ?P = "copy_event (n # names)"
  have IH: "ran w' (copy_loop env w' names) ?P (copy_events names)" for w'
    using Cons.IH [of w'] by (rule ran_mono) (rule copy_event_mono)
  show ?case
  proof (cases "endswith n ''.png''")
    case False
    then have "copy_events (n # names) = (copy_events names :: 'a event list)"
      by (simp add: copy_events_def)
    with IH [of w] False show ?thesis by simp
  next
    case True
    let ?s = "os_path_join source_dir n"
    let ?t = "os_path_join target_dir n"
    have E: "copy_events (n # names)
        = Copy2 ?s ?t # Print (copied_line n) # (copy_events names :: 'a event list)"
      using True by (simp add: copy_events_def)
    have S: "?P (Copy2 ?s ?t)" using True by simp
    from IH have "ran w (case perform env w (Copy2 ?s ?t) of (w1, Some e) \<Rightarrow> (w1, Some e)
        | (w1, None) \<Rightarrow> copy_loop env (print (copied_line n) w1) names)
        ?P (copy_events (n # names))"
      unfolding E by (intro ran_perform ran_print S) simp_all
    then show ?thesis
      unfolding copied_line_def using True by (simp only: copy_loop.simps Let_def if_True)
  qed
qed

lemma set_map_filter_conv: "set (List.map_filter f xs) = {y. \<exists>x \<in> set xs. f x = Some y}"
  by (induction xs) (auto split: option.splits)

lemma listdir_names:
  assumes "listdir w d = Inr names"
  shows "distinct names" and "\<forall>n \<in> set names. entry_name n"
    and "\<forall>n \<in> set names. \<exists>p \<in> set (map fst (files w)) \<union> set (dirs w). p = d @ ''/'' @ n"
proof -
  from assms have names: "names = remdups (List.map_filter (child_name d)
      (map fst (files w) @ dirs w))"
    by (simp add: listdir_def split: if_splits)
  show "distinct names" by (simp add: names)
  have c: "entry_name n \<and> p = d @ ''/'' @ n" if "child_name d p = Some n" for p n
  proof -
    from that have t: "take (Suc (length d)) p = d @ ''/''" and n: "n = drop (Suc (length d)) p"
      and e: "n \<noteq> []" "CHR ''/'' \<notin> set n"
      by (auto simp: child_name_def Let_def split: if_splits)
    from append_take_drop_id [of "Suc (length d)" p] t n have "p = d @ ''/'' @ n" by simp
    with e show ?thesis by (simp add: entry_name_def)
  qed
  have m: "\<exists>p \<in> set (map fst (files w) @ dirs w). child_name d p = Some n"
    if "n \<in> set names" for n
    using that by (simp add: names set_map_filter_conv)
  show "\<forall>n \<in> set names. entry_name n"
    using c m by blast
  show "\<forall>n \<in> set names. \<exists>p \<in> set (map fst (files w)) \<union> set (dirs w). p = d @ ''/'' @ n"
  proof
    fix n assume "n \<in> set names"
    from m [OF this] obtain p where "p \<in> set (map fst (files w) @ dirs w)"
      "child_name d p = Some n"
      by blast
    with c [of p n] show "\<exists>p \<in> set (map fst (files w)) \<union> set (dirs w). p = d @ ''/'' @ n"
      by auto
  qed
qed

lemma listdir_member:
  assumes "listdir w d = Inr names" and "entry_name n"
    and "d @ ''/'' @ n \<in> set (map fst (files w)) \<union> set (dirs w)"
  shows "n \<in> set names"
proof -
  from assms(1) have names: "names = remdups (List.map_filter (child_name d)
      (map fst (files w) @ dirs w))"
    by (simp add: listdir_def split: if_splits)
  from assms(2) have "child_name d (d @ ''/'' @ n) = Some n"
    by (simp add: child_name_def entry_name_def)
  with assms(3) have "\<exists>x \<in> set (map fst (files w) @ dirs w). child_name d x = Some n"
    by (intro bexI [of _ "d @ ''/'' @ n"]) simp_all
  then show ?thesis by (simp add: names set_map_filter_conv)
qed

lemma under_append: "under d (d @ ''/'' @ n)"
  by (simp add: under_def)

lemma under_trans_append: "under d p \<Longrightarrow> under d (p @ q)"
  by (auto simp: under_def take_Suc_conv_app_nth nth_append)

lemma os_path_join_entry:
  assumes "entry_name n" and "d \<noteq> []" and "last d \<noteq> CHR ''/''"
  shows "os_path_join d n = d @ ''/'' @ n"
proof -
  from assms(1) have "n \<noteq> []" "hd n \<noteq> CHR ''/''"
    by (auto simp: entry_name_def dest: hd_in_set)
  with assms(2,3) show ?thesis by (simp add: os_path_join_def)
qed

lemma join_source_dir: "entry_name n \<Longrightarrow> os_path_join source_dir n = source_dir @ ''/'' @ n"
  by (rule os_path_join_entry) (simp_all add: source_dir_def)

lemma join_target_dir: "entry_name n \<Longrightarrow> os_path_join target_dir n = target_dir @ ''/'' @ n"
  by (rule os_path_join_entry) (simp_all add: target_dir_def)

lemma basename_slash:
  assumes "CHR ''/'' \<notin> set n"
  shows "basename (d @ ''/'' @ n) = n"
proof -
  from assms have "takeWhile (\<lambda>c. c \<noteq> CHR ''/'') (rev n @ CHR ''/'' # rev d) = rev n"
    by (subst takeWhile_append2) auto
  then show ?thesis by (simp add: basename_def)
qed

text \<open>Where \<open>shutil.copy2\<close> writes when it copies the entry \<open>n\<close> of the source directory.\<close>

lemma copy_target_entry:
  assumes "entry_name n"
  shows "copy_target w (os_path_join source_dir n) (os_path_join target_dir n)
    = (if is_dir w (target_dir @ ''/'' @ n) then target_dir @ ''/'' @ n @ ''/'' @ n
       else target_dir @ ''/'' @ n)"
proof -
  from assms have n: "n \<noteq> []" "CHR ''/'' \<notin> set n" by (simp_all add: entry_name_def)
  from n have "last n \<noteq> CHR ''/''" by (metis last_in_set)
  with n have "last (target_dir @ ''/'' @ n) \<noteq> CHR ''/''"
    by (simp add: last_append)
  with assms have "os_path_join (target_dir @ ''/'' @ n) n = (target_dir @ ''/'' @ n) @ ''/'' @ n"
    by (intro os_path_join_entry) simp_all
  moreover from n have "basename (source_dir @ CHR ''/'' # n) = n"
    using basename_slash [of n source_dir] by simp
  ultimately show ?thesis
    by (simp add: copy_target_def join_source_dir join_target_dir assms)
qed

lemma under_copy_target:
  assumes "entry_name n"
  shows "under target_dir
    (copy_target w (os_path_join source_dir n) (os_path_join target_dir n))"
  using under_append [of target_dir "n @ ''/'' @ n"] under_append [of target_dir n]
  by (simp add: copy_target_entry [OF assms])

lemma files_step_Copy2:
  "map_of (files (step (Copy2 s t) w)) q
     = (if q = copy_target w s t \<and> map_of (files w) s \<noteq> None then map_of (files w) s
        else map_of (files w) q)"
  by (cases "map_of (files w) s") (simp_all add: step_def update_conv')

lemma dirs_step_Copy2 [simp]: "dirs (step (Copy2 s t) w) = dirs w"
  by (cases "map_of (files w) s") (simp_all add: step_def)

lemma files_step_WriteJson:
  "map_of (files (step (WriteJson p c) w)) = (map_of (files w))(p \<mapsto> JSON c)"
  by (simp add: step_def update_conv')

lemma dirs_step_WriteJson [simp]: "dirs (step (WriteJson p c) w) = dirs w"
  by (simp add: step_def)

text \<open>The copies change no directory, and no file but those they write.\<close>

lemma dirs_run_copy: "\<forall>ev \<in> set evs. copy_event names ev \<Longrightarrow> dirs (run evs w) = dirs w"
proof (induction evs arbitrary: w)
  case Nil
  show ?case by simp
next
  case (Cons ev evs)
  then show ?case by (cases ev) simp_all
qed

lemma files_run_copy:
  assumes "\<forall>ev \<in> set evs. copy_event names ev" and "\<forall>n \<in> set names. entry_name n"
    and "\<forall>n \<in> set names. endswith n ''.png'' \<longrightarrow>
           q \<noteq> target_dir @ ''/'' @ n \<and> q \<noteq> target_dir @ ''/'' @ n @ ''/'' @ n"
  shows "map_of (files (run evs w)) q = map_of (files w) q"
  using assms(1)
proof (induction evs arbitrary: w)
  case Nil
  show ?case by simp
next
  case (Cons ev evs)
  then have IH: "map_of (files (run evs (step ev w))) q = map_of (files (step ev w)) q"
    by simp
  show ?case
  proof (cases ev)
    case (Print s)
    with IH show ?thesis by simp
  next
    case (Copy2 s t)
    with Cons.prems obtain n where n: "n \<in> set names" "endswith n ''.png''"
      "s = os_path_join source_dir n" "t = os_path_join target_dir n"
      by auto
    with assms(2) have "entry_name n" by blast
    from copy_target_entry [OF this, of w] n assms(3) have "q \<noteq> copy_target w s t"
      by (auto split: if_splits)
    with IH Copy2 show ?thesis by (simp add: files_step_Copy2)
  qed (use Cons.prems in simp_all)
qed

lemma files_run_copy_outside:
  assumes "\<forall>ev \<in> set evs. copy_event names ev" and "\<forall>n \<in> set names. entry_name n"
    and "\<not> under target_dir q"
  shows "map_of (files (run evs w)) q = map_of (files w) q"
proof (rule files_run_copy [OF assms(1,2)], intro ballI impI)
  fix n
  from assms(3) under_append [of target_dir n] under_append [of target_dir "n @ ''/'' @ n"]
  show "q \<noteq> target_dir @ ''/'' @ n \<and> q \<noteq> target_dir @ ''/'' @ n @ ''/'' @ n"
    by auto
qed

lemma copy_event_copying:
  assumes "\<forall>n \<in> set names. entry_name n" and "copy_event names ev"
  shows "copying ev"
proof (cases ev)
  case (Copy2 s t)
  with assms(2) obtain n where n: "n \<in> set names" "endswith n ''.png''"
    "s = os_path_join source_dir n" "t = os_path_join target_dir n"
    by auto
  with assms(1) have "entry_name n" by blast
  with n Copy2 show ?thesis
    by (auto simp: join_source_dir join_target_dir)
qed (use assms(2) in simp_all)

lemma copy_events_all: "\<forall>ev \<in> set (copy_events names). copy_event names ev"
  by (auto simp: copy_events_def split: if_splits)

lemma not_under_target_source: "\<not> under target_dir (source_dir @ rest)"
  by (simp add: under_def source_dir_def target_dir_def)

text \<open>After the copies, the entry \<open>n\<close> is in the target directory with what it held.\<close>

lemma run_copy_events_file:
  assumes "\<forall>m \<in> set names. entry_name m" and "distinct names" and "n \<in> set names"
    and "endswith n ''.png''" and "map_of (files w) (source_dir @ ''/'' @ n) = Some c"
    and "\<not> is_dir w (target_dir @ ''/'' @ n)"
  shows "map_of (files (run (copy_events names) w)) (target_dir @ ''/'' @ n) = Some c"
  using assms
proof (induction names arbitrary: w)
  case Nil
  then show ?case by simp
next
  case (Cons m names)
  from Cons.prems(1) have em: "entry_name m" and en: "\<forall>k \<in> set names. entry_name k"
    by simp_all
  from Cons.prems(1,3) have n: "entry_name n" by blast
  show ?case
  proof (cases "m = n")
    case True
    let ?w1 = "step (Print (copied_line n))
        (step (Copy2 (os_path_join source_dir n) (os_path_join target_dir n)) w)"
    from Cons.prems(6) copy_target_entry [OF n, of w]
    have ct: "copy_target w (os_path_join source_dir n) (os_path_join target_dir n)
        = target_dir @ ''/'' @ n"
      by simp
    from Cons.prems(5) have "map_of (files w) (os_path_join source_dir n) = Some c"
      by (simp add: join_source_dir [OF n])
    then have "map_of (files ?w1) (target_dir @ ''/'' @ n) = Some c"
      by (simp add: files_step_Copy2 ct)
    moreover have "map_of (files (run (copy_events names) ?w1)) (target_dir @ ''/'' @ n)
        = map_of (files ?w1) (target_dir @ ''/'' @ n)"
    proof (rule files_run_copy [OF copy_events_all en], intro ballI impI)
      fix k assume k: "k \<in> set names"
      with Cons.prems(2) True have "k \<noteq> n" by auto
      moreover from n have "CHR ''/'' \<notin> set n" by (simp add: entry_name_def)
      then have "n \<noteq> k @ ''/'' @ k" by auto
      ultimately show "target_dir @ ''/'' @ n \<noteq> target_dir @ ''/'' @ k
          \<and> target_dir @ ''/'' @ n \<noteq> target_dir @ ''/'' @ k @ ''/'' @ k"
        by simp
    qed
    ultimately show ?thesis
      using True Cons.prems(4) by (simp add: copy_events_def)
  next
    case False
    with Cons.prems(3) have mem: "n \<in> set names" by simp
    from Cons.prems(2) have d: "distinct names" by simp
    show ?thesis
    proof (cases "endswith m ''.png''")
      case png: False
      from Cons.IH [OF en d mem Cons.prems(4,5,6)] png show ?thesis
        by (simp add: copy_events_def)
    next
      case png: True
      let ?w1 = "step (Print (copied_line m))
          (step (Copy2 (os_path_join source_dir m) (os_path_join target_dir m)) w)"
      from under_copy_target [OF em, of w] not_under_target_source [of "''/'' @ n"]
      have "source_dir @ ''/'' @ n
          \<noteq> copy_target w (os_path_join source_dir m) (os_path_join target_dir m)"
        by auto
      with Cons.prems(5) have f: "map_of (files ?w1) (source_dir @ ''/'' @ n) = Some c"
        by (simp add: files_step_Copy2)
      from Cons.prems(6) have nd: "\<not> is_dir ?w1 (target_dir @ ''/'' @ n)"
        by (simp add: is_dir_def)
      from Cons.IH [OF en d mem Cons.prems(4) f nd] png show ?thesis
        by (simp add: copy_events_def)
    qed
  qed
qed

text \<open>When the loop of copies raises nothing.\<close>

lemma copy_loop_succeeds:
  assumes "\<forall>n \<in> set names. entry_name n"
    and "\<forall>n \<in> set names. endswith n ''.png'' \<longrightarrow> is_file w (source_dir @ ''/'' @ n)"
    and "is_dir w target_dir" and "\<forall>q \<in> set (dirs w). \<not> under target_dir q"
    and "\<forall>w' s t. os_error env w' (Copy2 s t) = None"
  shows "copy_loop env w names = (run (copy_events names) w, None)"
  using assms(1-4)
proof (induction names arbitrary: w)
  case Nil
  show ?case by (simp add: copy_events_def)
next
  case (Cons m names)
  from Cons.prems(1) have em: "entry_name m" and en: "\<forall>k \<in> set names. entry_name k"
    by simp_all
  show ?case
  proof (cases "endswith m ''.png''")
    case False
    with Cons.IH [OF en _ Cons.prems(3,4)] Cons.prems(2) show ?thesis
      by (simp add: copy_events_def)
  next
    case True
    let ?s = "os_path_join source_dir m"
    let ?t = "os_path_join target_dir m"
    from em have "CHR ''/'' \<notin> set m" by (simp add: entry_name_def)
    from dirname_slash [OF this, of target_dir]
    have dn: "dirname (target_dir @ ''/'' @ m) = target_dir" .
    from Cons.prems(4) under_append [of target_dir m]
    have nd: "\<not> is_dir w (target_dir @ ''/'' @ m)"
      by (auto simp: is_dir_def)
    with dn Cons.prems(3) have "write_error w (target_dir @ ''/'' @ m) = None"
      by (simp add: write_error_def)
    moreover from nd copy_target_entry [OF em, of w]
    have "copy_target w ?s ?t = target_dir @ ''/'' @ m"
      by simp
    moreover from True Cons.prems(2) have "is_file w ?s"
      by (simp add: join_source_dir [OF em])
    ultimately have "fs_error w (Copy2 ?s ?t) = None"
      by simp
    with assms(5) have p: "perform env w (Copy2 ?s ?t) = (step (Copy2 ?s ?t) w, None)"
      by (simp add: perform_ok)
    let ?w1 = "print (copied_line m) (step (Copy2 ?s ?t) w)"
    have "is_file ?w1 q" if "is_file w q" for q
      using that by (auto simp: is_file_def print_def files_step_Copy2)
    with Cons.prems(2)
    have a: "\<forall>n \<in> set names. endswith n ''.png'' \<longrightarrow> is_file ?w1 (source_dir @ ''/'' @ n)"
      by simp
    have b: "is_dir ?w1 target_dir" "\<forall>q \<in> set (dirs ?w1). \<not> under target_dir q"
      using Cons.prems(3,4) by (simp_all add: is_dir_def print_def)
    from Cons.IH [OF en a b] p True show ?thesis
      unfolding copied_line_def by (simp add: copy_events_def print_def copied_line_def)
  qed
qed

lemma performable_append:
  "performable env w (xs @ ys) \<longleftrightarrow> performable env w xs \<and> performable env (run xs w) ys"
proof (induction xs arbitrary: w)
  case Nil
  show ?case by simp
next
  case (Cons ev xs)
  then show ?case by (cases ev) auto
qed

lemma performable_Save:
  "performable env w (Save p x # evs)
     \<longleftrightarrow> perform env w (Save p x) = (step (Save p x) w, None)
       \<and> performable env (step (Save p x) w) evs"
  by (auto simp: perform_def split: option.splits)

lemma perform_snd:
  "snd (perform env w ev) = None \<longleftrightarrow> perform env w ev = (step ev w, None)"
  by (auto simp: perform_def split: option.splits)

lemma ios_loop_None_iff:
  "snd (ios_loop env img w tbl) = None
     \<longleftrightarrow> (\<forall>(width, height, name) \<in> set tbl. \<exists>x. Image_resize env img (width, height) = Inr x)
       \<and> performable env w (ios_events env img tbl)"
proof (induction tbl arbitrary: w)
  case Nil
  show ?case by (simp add: ios_events_def)
next
  case (Cons a tbl)
  obtain width height name where a: "a = (width, height, name)"
    by (cases a) auto
  let ?p = "ios_output_path width height name"
  show ?case
  proof (cases "Image_resize env img (width, height)")
    case (Inl e)
    then show ?thesis by (simp add: a)
  next
    case (Inr x)
    have E: "ios_events env img (a # tbl)
        = Save ?p x # Print (icon_line width height ?p) # ios_events env img tbl"
      using Inr by (simp add: a ios_events_def resized_def)
    show ?thesis
    proof (cases "perform env w (Save ?p x) = (step (Save ?p x) w, None)")
      case True
      with Cons.IH [of "step (Print (icon_line width height ?p)) (step (Save ?p x) w)"] Inr
      show ?thesis
        unfolding E performable_Save by (simp add: a print_def Let_def)
    next
      case False
      then have "snd (perform env w (Save ?p x)) \<noteq> None" by (simp add: perform_snd)
      with False Inr show ?thesis
        unfolding E performable_Save
        by (cases "perform env w (Save ?p x)") (auto simp: a Let_def)
    qed
  qed
qed

lemma android_loop_None_iff:
  "snd (android_loop env img w tbl) = None
     \<longleftrightarrow> (\<forall>(width, height, density) \<in> set tbl.
            \<exists>x. Image_resize env img (width, height) = Inr x)
       \<and> performable env w (android_events env img tbl)"
proof (induction tbl arbitrary: w)
  case Nil
  show ?case by (simp add: android_events_def)
next
  case (Cons a tbl)
  obtain width height density where a: "a = (width, height, density)"
    by (cases a) auto
  let ?p1 = "android_output_path width height density"
  let ?p2 = "android_path density"
  let ?p3 = "android_round_path density"
  show ?case
  proof (cases "Image_resize env img (width, height)")
    case (Inl e)
    then show ?thesis by (simp add: a)
  next
    case (Inr x)
    have E: "android_events env img (a # tbl)
        = Save ?p1 x # Save ?p2 x # Save ?p3 x # Print (icon_line width height ?p2)
            # android_events env img tbl"
      using Inr by (simp add: a android_events_def resized_def)
    let ?w1 = "step (Save ?p1 x) w"
    let ?w2 = "step (Save ?p2 x) ?w1"
    let ?w3 = "step (Save ?p3 x) ?w2"
    show ?thesis
    proof (cases "perform env w (Save ?p1 x) = (?w1, None)")
      case False
      then have "snd (perform env w (Save ?p1 x)) \<noteq> None" by (simp add: perform_snd)
      with False Inr show ?thesis
        unfolding E performable_Save
        by (cases "perform env w (Save ?p1 x)") (auto simp: a)
    next
      case p1: True
      show ?thesis
      proof (cases "perform env ?w1 (Save ?p2 x) = (?w2, None)")
        case False
        then have "snd (perform env ?w1 (Save ?p2 x)) \<noteq> None" by (simp add: perform_snd)
        with False Inr p1 show ?thesis
          unfolding E performable_Save
          by (cases "perform env ?w1 (Save ?p2 x)") (auto simp: a)
      next
        case p2: True
        show ?thesis
        proof (cases "perform env ?w2 (Save ?p3 x) = (?w3, None)")
          case False
          then have "snd (perform env ?w2 (Save ?p3 x)) \<noteq> None" by (simp add: perform_snd)
          with False Inr p1 p2 show ?thesis
            unfolding E performable_Save
            by (cases "perform env ?w2 (Save ?p3 x)") (auto simp: a)
        next
          case p3: True
          with Cons.IH [of "step (Print (icon_line width height ?p2)) ?w3"] Inr p1 p2
          show ?thesis
            unfolding E performable_Save by (simp add: a print_def)
        qed
      qed
    qed
  qed
qed

lemma store_loop_None_iff:
  "snd (store_loop env img w tbl) = None
     \<longleftrightarrow> (\<forall>(width, height, name) \<in> set tbl.
            if width = 1024 \<and> height = 500 then \<exists>x. feature_graphic env img = Inr x
            else \<exists>x. Image_resize env img (width, height) = Inr x)
       \<and> performable env w (store_events env img tbl)"
proof (induction tbl arbitrary: w)
  case Nil
  show ?case by (simp add: store_events_def)
next
  case (Cons a tbl)
  obtain width height name where a: "a = (width, height, name)"
    by (cases a) auto
  show ?case
  proof (cases "width = 1024 \<and> height = 500")
    case True
    let ?p = feature_graphic_path
    show ?thesis
    proof (cases "feature_graphic env img")
      case (Inl e)
      with True show ?thesis by (auto simp: a)
    next
      case (Inr x)
      have E: "store_events env img (a # tbl)
          = Save ?p x # Print (icon_line width height ?p) # store_events env img tbl"
        using Inr True by (simp add: a store_events_def)
      show ?thesis
      proof (cases "perform env w (Save ?p x) = (step (Save ?p x) w, None)")
        case p: True
        with Cons.IH [of "step (Print (icon_line width height ?p)) (step (Save ?p x) w)"]
          Inr True
        show ?thesis
          unfolding E performable_Save by (auto simp: a print_def)
      next
        case False
        then have "snd (perform env w (Save ?p x)) \<noteq> None" by (simp add: perform_snd)
        with False Inr True show ?thesis
          unfolding E performable_Save
          by (cases "perform env w (Save ?p x)") (auto simp: a)
      qed
    qed
  next
    case False
    let ?p = "store_output_path width height name"
    show ?thesis
    proof (cases "Image_resize env img (width, height)")
      case (Inl e)
      with False show ?thesis by (auto simp: a)
    next
      case (Inr x)
      have E: "store_events env img (a # tbl)
          = Save ?p x # Print (icon_line width height ?p) # store_events env img tbl"
        using Inr False by (auto simp: a store_events_def resized_def)
      show ?thesis
      proof (cases "perform env w (Save ?p x) = (step (Save ?p x) w, None)")
        case p: True
        with Cons.IH [of "step (Print (icon_line width height ?p)) (step (Save ?p x) w)"]
          Inr False
        show ?thesis
          unfolding E performable_Save by (auto simp: a print_def Let_def)
      next
        case p: False
        then have "snd (perform env w (Save ?p x)) \<noteq> None" by (simp add: perform_snd)
        with p Inr False show ?thesis
          unfolding E performable_Save
          by (cases "perform env w (Save ?p x)") (auto simp: a Let_def)
      qed
    qed
  qed
qed

lemma loop_fst:
  assumes "ran w res P E" and "snd res = None"
  shows "fst res = run E w"
proof -
  from assms(1) obtain evs rest where "fst res = run evs w" "snd res = None \<longrightarrow> evs = E"
    by (rule ranE)
  with assms(2) show ?thesis by simp
qed

lemma generate_body_None_iff:
  assumes "open_image env w src = Inr img"
  shows "snd (generate_body env w src) = None
     \<longleftrightarrow> library_ok env img \<and> performable env w (gen_events env img)"
proof -
  let ?W = "if Image_size env img \<noteq> (1024, 1024)
      then [Print (size_warning (Image_size env img))] else []"
  let ?IE = "ios_events env img ICON_SIZES_ios"
  let ?AE = "android_events env img ICON_SIZES_android"
  let ?SE = "store_events env img ICON_SIZES_store"
  let ?w0 = "if Image_size env img \<noteq> (1024, 1024)
      then print (warning_sign @ ''  Warning: Source image is '' @ str_size (Image_size env img)
             @ '', recommended: (1024, 1024)'') w
      else w"
  let ?w1 = "print (newline @ red_apple @ '' Generating iOS icons...'') ?w0"
  let ?r1 = "ios_loop env img ?w1 ICON_SIZES_ios"
  let ?w2 = "print (newline @ robot_face @ '' Generating Android icons...'') (fst ?r1)"
  let ?r2 = "android_loop env img ?w2 ICON_SIZES_android"
  let ?w3 = "print (newline @ convenience_store @ '' Generating store assets...'') (fst ?r2)"
  let ?r3 = "store_loop env img ?w3 ICON_SIZES_store"
  let ?L1 = "\<forall>(width, height, name) \<in> set ICON_SIZES_ios.
      \<exists>x. Image_resize env img (width, height) = Inr x"
  let ?L2 = "\<forall>(width, height, name) \<in> set ICON_SIZES_android.
      \<exists>x. Image_resize env img (width, height) = Inr x"
  let ?L3 = "\<forall>(width, height, name) \<in> set ICON_SIZES_store.
      if width = 1024 \<and> height = 500 then \<exists>x. feature_graphic env img = Inr x
      else \<exists>x. Image_resize env img (width, height) = Inr x"
  have body: "snd (generate_body env w src) = None
      \<longleftrightarrow> snd ?r1 = None \<and> snd ?r2 = None \<and> snd ?r3 = None"
    using assms by (auto simp: generate_body_def Let_def split: prod.splits option.splits)
  have w1: "?w1 = run (?W @ [Print ios_banner]) w"
    by (simp add: print_def size_warning_def ios_banner_def)
  have i: "snd ?r1 = None \<longleftrightarrow> ?L1 \<and> performable env ?w1 ?IE"
    by (rule ios_loop_None_iff)
  have a: "snd ?r2 = None \<longleftrightarrow> ?L2 \<and> performable env ?w2 ?AE"
    by (rule android_loop_None_iff)
  have s: "snd ?r3 = None \<longleftrightarrow> ?L3 \<and> performable env ?w3 ?SE"
    by (rule store_loop_None_iff)
  have w2: "?w2 = run (?W @ Print ios_banner # ?IE @ [Print android_banner]) w"
    if "snd ?r1 = None"
  proof -
    from loop_fst [OF ios_loop_ran that] have "fst ?r1 = run ?IE ?w1" .
    then have "?w2 = step (Print android_banner) (run ?IE ?w1)"
      by (simp only: print_def android_banner_def)
    also have "\<dots> = run (?W @ Print ios_banner # ?IE @ [Print android_banner]) w"
      unfolding w1 by (simp add: run_append)
    finally show ?thesis .
  qed
  have w3: "?w3 = run (?W @ Print ios_banner # ?IE @ Print android_banner # ?AE
      @ [Print store_banner]) w"
    if "snd ?r1 = None" "snd ?r2 = None"
  proof -
    from loop_fst [OF android_loop_ran that(2)] have "fst ?r2 = run ?AE ?w2" .
    then have "?w3 = step (Print store_banner) (run ?AE ?w2)"
      by (simp only: print_def store_banner_def)
    also have "\<dots> = run (?W @ Print ios_banner # ?IE @ Print android_banner # ?AE
        @ [Print store_banner]) w"
      unfolding w2 [OF that(1)] by (simp add: run_append)
    finally show ?thesis .
  qed
  have pW: "performable env w (?W @ [Print ios_banner])"
    by simp
  have G: "gen_events env img
      = (?W @ [Print ios_banner]) @ ?IE @ [Print android_banner] @ ?AE @ [Print store_banner] @ ?SE"
    by (simp add: gen_events_def)
  have lib: "library_ok env img \<longleftrightarrow> ?L1 \<and> ?L2 \<and> ?L3"
    unfolding library_ok_def by (simp only: set_append ball_Un conj_assoc)
  have perf: "performable env w (gen_events env img)
      \<longleftrightarrow> performable env ?w1 ?IE
        \<and> performable env (run (?W @ Print ios_banner # ?IE @ [Print android_banner]) w) ?AE
        \<and> performable env (run (?W @ Print ios_banner # ?IE @ Print android_banner # ?AE
              @ [Print store_banner]) w) ?SE"
    unfolding G performable_append w1 by (simp add: run_append)
  show ?thesis
  proof
    assume "snd (generate_body env w src) = None"
    with body have n: "snd ?r1 = None" "snd ?r2 = None" "snd ?r3 = None" by simp_all
    from n(1) i have 1: "?L1" "performable env ?w1 ?IE" by simp_all
    from n(2) a have 2: "?L2" "performable env ?w2 ?AE" by simp_all
    from n(3) s have 3: "?L3" "performable env ?w3 ?SE" by simp_all
    from 1(1) 2(1) 3(1) lib have "library_ok env img" by simp
    moreover from 1(2) 2(2) [unfolded w2 [OF n(1)]] 3(2) [unfolded w3 [OF n(1,2)]]
    have "performable env w (gen_events env img)"
      unfolding perf by (intro conjI)
    ultimately show "library_ok env img \<and> performable env w (gen_events env img)" ..
  next
    assume r: "library_ok env img \<and> performable env w (gen_events env img)"
    then have L: "?L1" "?L2" "?L3" using lib by simp_all
    from r have P: "performable env ?w1 ?IE"
      "performable env (run (?W @ Print ios_banner # ?IE @ [Print android_banner]) w) ?AE"
      "performable env (run (?W @ Print ios_banner # ?IE @ Print android_banner # ?AE
              @ [Print store_banner]) w) ?SE"
      unfolding perf by simp_all
    from L(1) P(1) i have n1: "snd ?r1 = None" by simp
    from P(2) have "performable env ?w2 ?AE" unfolding w2 [OF n1] .
    with L(2) a have n2: "snd ?r2 = None" by simp
    from P(3) have "performable env ?w3 ?SE" unfolding w3 [OF n1 n2] .
    with L(3) s have n3: "snd ?r3 = None" by simp
    from n1 n2 n3 body show "snd (generate_body env w src) = None" by simp
  qed
qed

text \<open>The two launcher icons of a density are saved one right after the other.\<close>

lemma android_events_split:
  "(width, height, density) \<in> set tbl \<Longrightarrow>
   \<exists>A B. android_events env img tbl
     = A @ Save (android_path density) (resized env img (width, height))
         # Save (android_round_path density) (resized env img (width, height)) # B"
proof (induction tbl)
  case Nil
  then show ?case by simp
next
  case (Cons a tbl)
  let ?r = "resized env img (width, height)"
  have E: "android_events env img (a # tbl)
      = (case a of (width, height, density) \<Rightarrow>
          [Save (android_output_path width height density) (resized env img (width, height)),
           Save (android_path density) (resized env img (width, height)),
           Save (android_round_path density) (resized env img (width, height)),
           Print (icon_line width height (android_path density))])
        @ android_events env img tbl"
    by (simp add: android_events_def)
  show ?case
  proof (cases "a = (width, height, density)")
    case True
    have "android_events env img (a # tbl)
        = [Save (android_output_path width height density) ?r]
          @ Save (android_path density) ?r # Save (android_round_path density) ?r
          # (Print (icon_line width height (android_path density))
             # android_events env img tbl)"
      unfolding E by (simp add: True)
    then show ?thesis by blast
  next
    case False
    with Cons obtain A B where "android_events env img tbl
        = A @ Save (android_path density) ?r # Save (android_round_path density) ?r # B"
      by auto
    then have "android_events env img (a # tbl)
        = ((case a of (width, height, density) \<Rightarrow>
          [Save (android_output_path width height density) (resized env img (width, height)),
           Save (android_path density) (resized env img (width, height)),
           Save (android_round_path density) (resized env img (width, height)),
           Print (icon_line width height (android_path density))]) @ A)
          @ Save (android_path density) ?r # Save (android_round_path density) ?r # B"
      unfolding E by simp
    then show ?thesis by blast
  qed
qed

lemma gen_events_split:
  assumes "(width, height, density) \<in> set ICON_SIZES_android"
  shows "\<exists>A B. gen_events env img
     = A @ Save (android_path density) (resized env img (width, height))
         # Save (android_round_path density) (resized env img (width, height)) # B"
proof -
  let ?r = "resized env img (width, height)"
  from android_events_split [OF assms, of env img] obtain A B where
    "android_events env img ICON_SIZES_android
       = A @ Save (android_path density) ?r # Save (android_round_path density) ?r # B"
    by blast
  then have "gen_events env img
      = ((if Image_size env img \<noteq> (1024, 1024)
          then [Print (size_warning (Image_size env img))] else [])
         @ Print ios_banner # ios_events env img ICON_SIZES_ios @ Print android_banner # A)
        @ Save (android_path density) ?r # Save (android_round_path density) ?r
        # (B @ Print store_banner # store_events env img ICON_SIZES_store)"
    by (simp add: gen_events_def)
  then show ?thesis by blast
qed

text \<open>Where no path is saved to twice, an effect that was reached was reached after
  the one right before it.\<close>

lemma save_before:
  assumes G: "G = evs @ rest" and S: "G = A @ Save p x # Save q x # B"
    and d: "distinct (map fst (saves G))" and m: "Save q y \<in> set evs"
  shows "y = x \<and> Save p x \<in> set evs"
proof -
  from d have d': "distinct (map fst (saves A) @ p # q # map fst (saves B))"
    unfolding S by simp
  then have "q \<notin> set (map fst (saves A))" "q \<noteq> p" "q \<notin> set (map fst (saves B))"
    by auto
  then have nq: "\<And>z. (q, z) \<notin> set (saves A)" "q \<noteq> p" "\<And>z. (q, z) \<notin> set (saves B)"
    by force+
  have nA: "Save q z \<notin> set (A @ [Save p x])" for z
    using nq(1) [of z] nq(2) by (simp add: saves_quiet_member)
  have nB: "Save q z \<notin> set B" for z
    using nq(3) [of z] by (simp add: saves_quiet_member)
  from m have "Save q y \<in> set G" unfolding G by simp
  then have "Save q y \<in> set (A @ [Save p x]) \<or> Save q y = Save q x \<or> Save q y \<in> set B"
    unfolding S by auto
  with nA nB have y: "y = x" by blast
  from m obtain E1 E2 where evs: "evs = E1 @ Save q y # E2"
    by (auto dest: split_list)
  have "(A @ [Save p x]) @ Save q x # B = E1 @ Save q x # (E2 @ rest)"
    using G S evs y by simp
  with append_Cons_eq_iff [OF nA [of x] nB [of x], of E1 "E2 @ rest"]
  have "A @ [Save p x] = E1"
    by (rule_tac iffD1 [THEN conjunct1])
  then have "Save p x \<in> set E1" by auto
  with y evs show ?thesis by simp
qed

text \<open>A path of the table is the path of one entry only.\<close>

lemma distinct_concat_entry:
  "distinct (concat (map f xs)) \<Longrightarrow> a \<in> set xs \<Longrightarrow> b \<in> set xs \<Longrightarrow>
   p \<in> set (f a) \<Longrightarrow> p \<in> set (f b) \<Longrightarrow> a = b"
proof (induction xs)
  case Nil
  then show ?case by simp
next
  case (Cons y ys)
  then show ?case by (cases "a = y"; cases "b = y") auto
qed

lemma distinct_android_asset_paths: "distinct android_asset_paths"
  using distinct_asset_paths unfolding asset_paths_def by simp

lemma round_asset:
  assumes t: "(width, height, density) \<in> set ICON_SIZES_android"
    and a: "asset env img (android_round_path density) x"
  shows "Image_resize env img (width, height) = Inr x"
proof -
  let ?p = "android_round_path density"
  let ?f = "\<lambda>(width, height, density).
       [android_output_path width height density, android_path density,
        android_round_path density]"
  have pf: "?p \<in> set (?f (width, height, density))" by simp
  with t have pa: "?p \<in> set android_asset_paths"
    unfolding android_asset_paths_def by force
  have dj: "set ios_asset_paths \<inter> set android_asset_paths = {}"
    "set android_asset_paths \<inter> set store_asset_paths = {}"
    using distinct_asset_paths unfolding asset_paths_def by auto
  from a consider
    (ios) "ios_event env img ICON_SIZES_ios (Save ?p x)"
    | (android) "android_event env img ICON_SIZES_android (Save ?p x)"
    | (store) "store_event env img ICON_SIZES_store (Save ?p x)"
    unfolding asset_def by blast
  then show ?thesis
  proof cases
    case ios
    then obtain t' where "t' \<in> set ICON_SIZES_ios"
      "?p = (case t' of (width, height, name) \<Rightarrow> ios_output_path width height name)"
      by auto
    then have "?p \<in> set ios_asset_paths" unfolding ios_asset_paths_def by simp
    with pa dj show ?thesis by blast
  next
    case store
    then obtain t' where "t' \<in> set ICON_SIZES_store"
      "?p = (case t' of (width, height, name) \<Rightarrow>
         if width = 1024 \<and> height = 500 then feature_graphic_path
         else store_output_path width height name)"
      by (auto split: if_splits)
    then have "?p \<in> set store_asset_paths" unfolding store_asset_paths_def by simp
    with pa dj show ?thesis by blast
  next
    case android
    then obtain w' h' d' where t': "(w', h', d') \<in> set ICON_SIZES_android"
      and p': "?p \<in> set (?f (w', h', d'))"
      and r: "Image_resize env img (w', h') = Inr x"
      by auto
    from distinct_android_asset_paths
    have "distinct (concat (map ?f ICON_SIZES_android))"
      unfolding android_asset_paths_def .
    from distinct_concat_entry [OF this t t' pf p']
    have "(width, height, density) = (w', h', d')" .
    with r show ?thesis by simp
  qed
qed

lemma distinct_prefix_saves:
  assumes "gen_events env img = evs @ rest"
  shows "distinct (map fst (saves evs))"
proof -
  have "distinct (map fst (saves (gen_events env img)))"
    by (simp add: saves_gen_events distinct_asset_paths)
  then show ?thesis unfolding assms by simp
qed

lemma quiet_prefix:
  assumes "gen_events env img = evs @ rest"
  shows "\<forall>ev \<in> set evs. quiet ev"
  using quiet_gen_events [of env img] unfolding assms by simp

text \<open>What holds of the round icon once a run of the \<open>try\<close> block has saved it.\<close>

lemma round_icon_saved:
  assumes G: "gen_events env img = evs @ rest"
    and P: "\<forall>ev \<in> set evs. gen_event env img ev"
    and t: "(width, height, density) \<in> set ICON_SIZES_android"
    and m: "Save (android_round_path density) x \<in> set evs"
  shows "Image_resize env img (width, height) = Inr x"
    and "Save (android_path density) x \<in> set evs"
    and "map_of (files (run (evs @ map Print ls) w)) (android_round_path density)
      = Some (PNG x)"
    and "map_of (files (run (evs @ map Print ls) w)) (android_path density) = Some (PNG x)"
proof -
  from P m have "gen_event env img (Save (android_round_path density) x)" by blast
  then have "asset env img (android_round_path density) x" by simp
  from round_asset [OF t this] show r: "Image_resize env img (width, height) = Inr x" .
  then have rx: "resized env img (width, height) = x" by (simp add: resized_def)
  from gen_events_split [OF t, of env img] obtain A B where
    S: "gen_events env img
      = A @ Save (android_path density) x # Save (android_round_path density) x # B"
    unfolding rx by blast
  have d: "distinct (map fst (saves (gen_events env img)))"
    by (simp add: saves_gen_events distinct_asset_paths)
  from save_before [OF G S d m] show n: "Save (android_path density) x \<in> set evs"
    by simp
  let ?full = "evs @ map Print ls"
  have sv: "saves (map Print ls) = []" by (induction ls) simp_all
  have q: "\<forall>ev \<in> set ?full. quiet ev"
    using quiet_prefix [OF G] by auto
  have df: "distinct (map fst (saves ?full))"
    using distinct_prefix_saves [OF G] by (simp add: sv)
  from m have m': "Save (android_round_path density) x \<in> set ?full" by simp
  from n have n': "Save (android_path density) x \<in> set ?full" by simp
  from file_after_saves [OF q df m']
  show "map_of (files (run ?full w)) (android_round_path density) = Some (PNG x)" .
  from file_after_saves [OF q df n']
  show "map_of (files (run ?full w)) (android_path density) = Some (PNG x)" .
qed

lemma copy_icons_to_ios_cases:
  fixes env :: "'img env"
  obtains
    (absent) "\<not> path_exists w source_dir"
      "copy_icons_to_ios env w = (run [Print not_listed_line] w, None)"
  | (not_dir) e where "path_exists w source_dir" "listdir w source_dir = Inl e"
      "copy_icons_to_ios env w = (w, Some e)"
  | (raised) names evs e where "path_exists w source_dir" "listdir w source_dir = Inr names"
      "\<forall>ev \<in> set evs. copying ev" "copy_icons_to_ios env w = (run evs w, Some e)"
      "\<forall>ev \<in> set evs. copy_event names ev"
  | (copied) names where "path_exists w source_dir" "listdir w source_dir = Inr names"
      "\<forall>ev \<in> set (copy_events names :: 'img event list). copying ev"
      "copy_loop env w names = (run (copy_events names) w, None)"
      "copy_icons_to_ios env w = (run (copy_events names) w, None)"
proof (cases "path_exists w source_dir")
  case False
  then have "copy_icons_to_ios env w = (run [Print not_listed_line] w, None)"
    by (simp add: copy_icons_to_ios_def not_listed_line_def print_def)
  with False show ?thesis by (rule absent)
next
  case True
  show ?thesis
  proof (cases "listdir w source_dir")
    case (Inl e)
    with True have "copy_icons_to_ios env w = (w, Some e)"
      by (simp add: copy_icons_to_ios_def)
    with True Inl show ?thesis by (rule not_dir)
  next
    case (Inr names)
    with True have eq: "copy_icons_to_ios env w = copy_loop env w names"
      by (simp add: copy_icons_to_ios_def)
    from listdir_names(2) [OF Inr] have en: "\<forall>n \<in> set names. entry_name n" .
    from copy_loop_ran [of w env names] obtain evs rest where
      evs: "fst (copy_loop env w names) = run evs w" "\<forall>ev \<in> set evs. copy_event names ev"
        "copy_events names = evs @ rest"
        "snd (copy_loop env w names) = None \<longrightarrow> evs = copy_events names"
      by (rule ranE)
    from evs(2) en have c: "\<forall>ev \<in> set evs. copying ev"
      by (blast intro: copy_event_copying)
    show ?thesis
    proof (cases "snd (copy_loop env w names)")
      case None
      with evs(1,4) have l: "copy_loop env w names = (run (copy_events names) w, None)"
        and e: "evs = copy_events names"
        by (simp_all add: prod_eq_iff)
      note cc = c [unfolded e]
      from True Inr cc l eq [unfolded l] show ?thesis by (rule copied)
    next
      case (Some e)
      with evs(1) have "copy_loop env w names = (run evs w, Some e)"
        by (simp add: prod_eq_iff)
      with eq have "copy_icons_to_ios env w = (run evs w, Some e)" by simp
      with True Inr c show ?thesis using evs(2) by (rule raised)
    qed
  qed
qed

lemma print_next_steps_run: "print_next_steps w = run (map Print next_steps) w"
  by (simp add: print_next_steps_def print_all_run)

lemma create_directories_cases:
  obtains
    (raised) evs e where "\<forall>ev \<in> set evs. mk_event directories ev"
      "create_directories env w = (run evs w, Some e)"
  | (created) "create_directories env w = (run (mk_events directories) w, None)"
proof -
  from create_directories_ran [of w env] obtain evs rest where
    evs: "fst (create_directories env w) = run evs w"
      "\<forall>ev \<in> set evs. mk_event directories ev"
      "mk_events directories = evs @ rest"
      "snd (create_directories env w) = None \<longrightarrow> evs = mk_events directories"
    by (rule ranE)
  show ?thesis
  proof (cases "snd (create_directories env w)")
    case None
    with evs(1,4) have "create_directories env w = (run (mk_events directories) w, None)"
      by (simp add: prod_eq_iff)
    then show ?thesis by (rule created)
  next
    case (Some e)
    with evs(1) have "create_directories env w = (run evs w, Some e)"
      by (simp add: prod_eq_iff)
    with evs(2) show ?thesis by (rule raised)
  qed
qed

lemma create_ios_contents_json_cases:
  obtains
    (raised) e where "create_ios_contents_json env w = (w, Some e)"
  | (written) "create_ios_contents_json env w = (run manifest_events w, None)"
proof -
  obtain w1 r where p: "perform env w (WriteJson contents_path ios_contents) = (w1, r)"
    by (cases "perform env w (WriteJson contents_path ios_contents)") auto
  from p show ?thesis
  proof (cases rule: perform_cases)
    case ok
    with p have "create_ios_contents_json env w = (run manifest_events w, None)"
      by (simp add: create_ios_contents_json_def manifest_events_def print_def)
    then show ?thesis by (rule written)
  next
    case (raised e)
    with p have "create_ios_contents_json env w = (w, Some e)"
      by (simp add: create_ios_contents_json_def)
    then show ?thesis by (rule that(1))
  qed
qed

text \<open>The effects of \<open>generate_icons\<close> when it returns False.\<close>

lemma generate_icons_False:
  assumes "\<not> snd (generate_icons env w src)"
  obtains evs where "\<forall>ev \<in> set evs. quiet ev"
    "generate_icons env w src = (run evs w, False)"
proof (cases rule: generate_icons_cases [of w src env])
  case missing
  have "\<forall>ev \<in> set [Print (not_found_line src)]. quiet ev" by simp
  then show ?thesis using missing(2) by (rule that)
next
  case (unreadable e)
  have "\<forall>ev \<in> set [Print (error_line e)]. quiet ev" by simp
  then show ?thesis using unreadable(3) by (rule that)
next
  case (failed img evs e)
  from failed(3) have "\<forall>ev \<in> set (evs @ [Print (error_line e)]). quiet ev"
    by (auto intro: gen_event_quiet)
  then show ?thesis using failed(5) by (rule that)
next
  case (succeeded img)
  with assms show ?thesis by simp
qed

lemma main_cases:
  fixes env :: "'img env"
  assumes "length argv = 2"
  obtains
    (no_dirs) evs e where "\<forall>ev \<in> set evs. mk_event directories ev"
      "create_directories env (run start_events w) = (run evs (run start_events w), Some e)"
      "main env w argv = (run (start_events @ evs) w, Uncaught e)"
  | (no_icons) evs where
      "create_directories env (run start_events w) = (after_dirs w, None)"
      "\<forall>ev \<in> set evs. quiet ev"
      "generate_icons env (after_dirs w) (argv ! 1) = (run evs (after_dirs w), False)"
      "main env w argv
         = (run (start_events @ mk_events directories @ evs @ [Print failed_line]) w,
            SystemExit 1)"
  | (no_manifest) img e where
      "create_directories env (run start_events w) = (after_dirs w, None)"
      "path_exists (after_dirs w) (argv ! 1)" "open_image env (after_dirs w) (argv ! 1) = Inr img"
      "library_ok env img"
      "generate_icons env (after_dirs w) (argv ! 1) = (after_icons env img w, True)"
      "create_ios_contents_json env (after_icons env img w)
         = (after_icons env img w, Some e)"
      "main env w argv
         = (run (start_events @ mk_events directories @ gen_events env img) w, Uncaught e)"
  | (no_copies) img evs e where
      "create_directories env (run start_events w) = (after_dirs w, None)"
      "path_exists (after_dirs w) (argv ! 1)" "open_image env (after_dirs w) (argv ! 1) = Inr img"
      "library_ok env img"
      "generate_icons env (after_dirs w) (argv ! 1) = (after_icons env img w, True)"
      "create_ios_contents_json env (after_icons env img w)
         = (after_manifest env img w, None)"
      "\<forall>ev \<in> set evs. copying ev"
      "copy_icons_to_ios env (after_manifest env img w)
         = (run evs (after_manifest env img w), Some e)"
      "main env w argv
         = (run (start_events @ mk_events directories @ gen_events env img @ manifest_events
                  @ evs) w, Uncaught e)"
  | (returned) img evs where
      "create_directories env (run start_events w) = (after_dirs w, None)"
      "path_exists (after_dirs w) (argv ! 1)" "open_image env (after_dirs w) (argv ! 1) = Inr img"
      "library_ok env img"
      "generate_icons env (after_dirs w) (argv ! 1) = (after_icons env img w, True)"
      "create_ios_contents_json env (after_icons env img w)
         = (after_manifest env img w, None)"
      "\<forall>ev \<in> set evs. copying ev"
      "copy_icons_to_ios env (after_manifest env img w)
         = (run evs (after_manifest env img w), None)"
      "main env w argv
         = (run (start_events @ mk_events directories @ gen_events env img @ manifest_events
                  @ evs @ map Print next_steps) w, Returned)"
proof -
  let ?src = "argv ! 1"
  let ?w0 = "run start_events w"
  have w0: "print (replicate 50 CHR ''='') (print (rocket @ '' Quanta App Icon Setup'') w) = ?w0"
    by (simp add: start_events_def print_def)
  have m: "main env w argv =
      (case create_directories env ?w0 of
           (w1, Some e) \<Rightarrow> (w1, Uncaught e)
         | (w1, None) \<Rightarrow>
            (case generate_icons env w1 ?src of
               (w2, True) \<Rightarrow>
                 (case create_ios_contents_json env w2 of
                    (w3, Some e) \<Rightarrow> (w3, Uncaught e)
                  | (w3, None) \<Rightarrow>
                     (case copy_icons_to_ios env w3 of
                        (w4, Some e) \<Rightarrow> (w4, Uncaught e)
                      | (w4, None) \<Rightarrow> (print_next_steps w4, Returned)))
             | (w2, False) \<Rightarrow> (print failed_line w2, SystemExit 1)))"
    using assms unfolding main_def Let_def w0 failed_line_def by (simp only: if_False simp_thms)
  show ?thesis
  proof (cases rule: create_directories_cases [of env ?w0])
    case (raised evs e)
    from raised(2) have "main env w argv = (run (start_events @ evs) w, Uncaught e)"
      unfolding m by (simp add: run_append)
    with raised show ?thesis by (rule no_dirs)
  next
    case created
    have c: "create_directories env ?w0 = (after_dirs w, None)"
      using created by (simp add: after_dirs_def run_append)
    have m1: "main env w argv =
        (case generate_icons env (after_dirs w) ?src of
               (w2, True) \<Rightarrow>
                 (case create_ios_contents_json env w2 of
                    (w3, Some e) \<Rightarrow> (w3, Uncaught e)
                  | (w3, None) \<Rightarrow>
                     (case copy_icons_to_ios env w3 of
                        (w4, Some e) \<Rightarrow> (w4, Uncaught e)
                      | (w4, None) \<Rightarrow> (print_next_steps w4, Returned)))
             | (w2, False) \<Rightarrow> (print failed_line w2, SystemExit 1))"
      unfolding m c by simp
    show ?thesis
    proof (cases "snd (generate_icons env (after_dirs w) ?src)")
      case False
      then obtain evs where evs: "\<forall>ev \<in> set evs. quiet ev"
        "generate_icons env (after_dirs w) ?src = (run evs (after_dirs w), False)"
        by (rule generate_icons_False)
      have "main env w argv
         = (run (start_events @ mk_events directories @ evs @ [Print failed_line]) w,
            SystemExit 1)"
        unfolding m1 evs(2) by (simp add: after_dirs_def run_append print_def)
      with c evs show ?thesis by (rule no_icons)
    next
      case True
      then obtain img where img: "path_exists (after_dirs w) ?src"
        "open_image env (after_dirs w) ?src = Inr img" "library_ok env img"
        "fst (generate_icons env (after_dirs w) ?src) = run (gen_events env img) (after_dirs w)"
        by (rule generate_icons_True)
      from True img(4) have g: "generate_icons env (after_dirs w) ?src
          = (after_icons env img w, True)"
        by (simp add: prod_eq_iff after_icons_def)
      have m2: "main env w argv =
          (case create_ios_contents_json env (after_icons env img w) of
                    (w3, Some e) \<Rightarrow> (w3, Uncaught e)
                  | (w3, None) \<Rightarrow>
                     (case copy_icons_to_ios env w3 of
                        (w4, Some e) \<Rightarrow> (w4, Uncaught e)
                      | (w4, None) \<Rightarrow> (print_next_steps w4, Returned)))"
        unfolding m1 g by simp
      have ai: "after_icons env img w
          = run (start_events @ mk_events directories @ gen_events env img) w"
        by (simp add: after_icons_def after_dirs_def run_append)
      show ?thesis
      proof (cases rule: create_ios_contents_json_cases [of env "after_icons env img w"])
        case (raised e)
        have "main env w argv = (after_icons env img w, Uncaught e)"
          unfolding m2 raised by simp
        then have "main env w argv
           = (run (start_events @ mk_events directories @ gen_events env img) w, Uncaught e)"
          unfolding ai .
        with c img(1-3) g raised show ?thesis by (rule no_manifest)
      next
        case written
        then have j: "create_ios_contents_json env (after_icons env img w)
            = (after_manifest env img w, None)"
          by (simp add: after_manifest_def)
        have m3: "main env w argv =
            (case copy_icons_to_ios env (after_manifest env img w) of
                        (w4, Some e) \<Rightarrow> (w4, Uncaught e)
                      | (w4, None) \<Rightarrow> (print_next_steps w4, Returned))"
          unfolding m2 j by simp
        have am: "after_manifest env img w
            = run (start_events @ mk_events directories @ gen_events env img
                @ manifest_events) w"
          by (simp only: after_manifest_def ai run_append append_assoc)
        have fin: "run evs (after_manifest env img w)
            = run (start_events @ mk_events directories @ gen_events env img
                @ manifest_events @ evs) w" for evs
          by (simp only: am run_append append_assoc)
        have fin': "run (map Print next_steps) (run evs (after_manifest env img w))
            = run (start_events @ mk_events directories @ gen_events env img
                @ manifest_events @ evs @ map Print next_steps) w" for evs
          by (simp only: am run_append append_assoc)
        show ?thesis
        proof (cases rule: copy_icons_to_ios_cases [of "after_manifest env img w" env])
          case absent
          have cp: "\<forall>ev \<in> set [Print not_listed_line :: 'img event]. copying ev" by simp
          have "main env w argv
              = (run (start_events @ mk_events directories @ gen_events env img
                  @ manifest_events @ [Print not_listed_line] @ map Print next_steps) w,
                 Returned)"
            unfolding m3 absent(2) by (simp only: prod.case option.case print_next_steps_run fin')
          with c img(1-3) g j cp absent(2) show ?thesis by (rule returned)
        next
          case (not_dir e)
          have cp: "\<forall>ev \<in> set ([] :: 'img event list). copying ev" by simp
          have r: "copy_icons_to_ios env (after_manifest env img w)
              = (run [] (after_manifest env img w), Some e)"
            using not_dir(3) by simp
          have "main env w argv
              = (run (start_events @ mk_events directories @ gen_events env img
                  @ manifest_events @ []) w, Uncaught e)"
            unfolding m3 r by (simp only: prod.case option.case fin)
          with c img(1-3) g j cp r show ?thesis by (rule no_copies)
        next
          case (raised names evs e)
          have "main env w argv
              = (run (start_events @ mk_events directories @ gen_events env img
                  @ manifest_events @ evs) w, Uncaught e)"
            unfolding m3 raised(4) by (simp only: prod.case option.case fin)
          with c img(1-3) g j raised(3,4) show ?thesis by (rule no_copies)
        next
          case (copied names)
          have "main env w argv
              = (run (start_events @ mk_events directories @ gen_events env img
                  @ manifest_events @ copy_events names @ map Print next_steps) w, Returned)"
            unfolding m3 copied(5)
            by (simp only: prod.case option.case print_next_steps_run fin')
          with c img(1-3) g j copied(3,5) show ?thesis by (rule returned)
        qed
      qed
    qed
  qed
qed

section \<open>The claims\<close>

text \<open>
  C10. When \<open>sys.argv\<close> does not have exactly two entries (the script and one source
  path), \<open>main\<close> prints the two usage lines and exits with status 1; it creates no
  directory and writes no file: the usage lines are its only effects.
\<close>

theorem main_usage:
  assumes "length argv \<noteq> 2"
  shows "snd (main env w argv) = SystemExit 1
       \<and> exit_code (snd (main env w argv)) = 1
       \<and> new_events w (fst (main env w argv)) = map Print usage_lines
       \<and> files (fst (main env w argv)) = files w
       \<and> dirs (fst (main env w argv)) = dirs w"
  using assms by (simp add: main_def print_all_run)

theorem main_usage_witness:
  "length [''setup_app_icon.py''] \<noteq> 2
   \<and> snd (main sample_env (sample_world (plain ''RGB'' (1024, 1024) ''#FFFFFF''))
        [''setup_app_icon.py'']) = SystemExit 1
   \<and> new_events (sample_world (plain ''RGB'' (1024, 1024) ''#FFFFFF''))
        (fst (main sample_env (sample_world (plain ''RGB'' (1024, 1024) ''#FFFFFF''))
           [''setup_app_icon.py''])) = map Print usage_lines"
  using main_usage [of "[''setup_app_icon.py'']" sample_env
      "sample_world (plain ''RGB'' (1024, 1024) ''#FFFFFF'')"]
  by simp

text \<open>
  C1. When \<open>generate_icons\<close> returns True, the images it has saved are, in this order, the
  12 iOS icons in assets/app_icons/generated/ios, then for each of the 5 Android
  densities the icon in assets/app_icons/generated/android and \<open>ic_launcher.png\<close> and
  \<open>ic_launcher_round.png\<close> in \<open>android/app/src/main/res/mipmap-<density>\<close>, then the 2
  store assets in assets/app_icons/generated/store: 29 distinct paths; and the files of
  the world are then those it had before and these 29.
\<close>

theorem generate_icons_assets:
  assumes "snd (generate_icons env w src)"
  shows "map fst (saves (new_events w (fst (generate_icons env w src)))) = asset_paths
    \<and> (\<forall>p. is_file (fst (generate_icons env w src)) p \<longleftrightarrow> is_file w p \<or> p \<in> set asset_paths)
    \<and> asset_paths = ios_asset_paths @ android_asset_paths @ store_asset_paths
    \<and> distinct asset_paths
    \<and> length ios_asset_paths = 12
    \<and> length android_asset_paths = 15
    \<and> length store_asset_paths = 2
    \<and> (\<forall>p \<in> set ios_asset_paths. dirname p = ''assets/app_icons/generated/ios'')
    \<and> (\<forall>(width, height, density) \<in> set ICON_SIZES_android.
          dirname (android_output_path width height density)
            = ''assets/app_icons/generated/android''
          \<and> android_path density
            = ''android/app/src/main/res/mipmap-'' @ density @ ''/ic_launcher.png''
          \<and> android_round_path density
            = ''android/app/src/main/res/mipmap-'' @ density @ ''/ic_launcher_round.png'')
    \<and> (\<forall>p \<in> set store_asset_paths. dirname p = ''assets/app_icons/generated/store'')"
proof -
  from assms obtain img where
    run: "fst (generate_icons env w src) = run (gen_events env img) w"
    by (rule generate_icons_True)
  have "map fst (saves (new_events w (fst (generate_icons env w src)))) = asset_paths"
    by (simp add: run saves_gen_events)
  moreover have "is_file (fst (generate_icons env w src)) p
      \<longleftrightarrow> is_file w p \<or> p \<in> set asset_paths" for p
    using is_file_after_saves [OF quiet_gen_events, of env img w p]
    by (simp add: run saves_gen_events)
  moreover have "length ios_asset_paths = 12" "length android_asset_paths = 15"
    "length store_asset_paths = 2"
    by (simp_all add: ios_asset_paths_def android_asset_paths_def store_asset_paths_def
        ICON_SIZES_ios_def ICON_SIZES_android_def ICON_SIZES_store_def)
  moreover have "\<forall>p \<in> set ios_asset_paths. dirname p = ''assets/app_icons/generated/ios''"
    by (auto simp: ios_asset_paths_def dirname_ios_output_path dest: no_slash_ios)
  moreover have "\<forall>(width, height, density) \<in> set ICON_SIZES_android.
          dirname (android_output_path width height density)
            = ''assets/app_icons/generated/android''
          \<and> android_path density
            = ''android/app/src/main/res/mipmap-'' @ density @ ''/ic_launcher.png''
          \<and> android_round_path density
            = ''android/app/src/main/res/mipmap-'' @ density @ ''/ic_launcher_round.png''"
    by (auto simp: dirname_android_output_path android_path_def android_round_path_def
        dest: no_slash_android)
  moreover have "\<forall>p \<in> set store_asset_paths. dirname p = ''assets/app_icons/generated/store''"
    by (auto simp: store_asset_paths_def dirname_store_output_path
        dirname_feature_graphic_path dest: no_slash_store split: if_splits)
  ultimately show ?thesis
    using distinct_asset_paths by (simp add: asset_paths_def)
qed

theorem generate_icons_assets_witness:
  "snd (generate_icons sample_env (sample_ready sample_icon) ''icon.png'')
   \<and> map fst (saves (new_events (sample_ready sample_icon)
        (fst (generate_icons sample_env (sample_ready sample_icon) ''icon.png''))))
     = asset_paths
   \<and> length asset_paths = 29"
proof -
  have h: "snd (generate_icons sample_env (sample_ready sample_icon) ''icon.png'')"
    by (simp add: sample_icon_generate)
  note t = generate_icons_assets [OF h]
  from t have a: "map fst (saves (new_events (sample_ready sample_icon)
        (fst (generate_icons sample_env (sample_ready sample_icon) ''icon.png''))))
     = asset_paths"
    by (rule conjunct1)
  have "length asset_paths = 29" unfolding asset_paths_eq by simp
  with h a show ?thesis by (intro conjI)
qed

text \<open>
  As the claim states it (every source that exists and loads), it fails: a source in the
  mode CMYK exists and loads, the first save raises, and \<open>generate_icons\<close> returns False
  with no file written; and so does an RGB source when the directories are missing.
\<close>

theorem generate_icons_assets_counterexample:
  "path_exists (sample_ready cmyk_icon) ''icon.png''
   \<and> open_image sample_env (sample_ready cmyk_icon) ''icon.png'' = Inr cmyk_icon
   \<and> \<not> snd (generate_icons sample_env (sample_ready cmyk_icon) ''icon.png'')
   \<and> saves (new_events (sample_ready cmyk_icon)
        (fst (generate_icons sample_env (sample_ready cmyk_icon) ''icon.png''))) = []
   \<and> path_exists (sample_world sample_icon) ''icon.png''
   \<and> open_image sample_env (sample_world sample_icon) ''icon.png'' = Inr sample_icon
   \<and> \<not> snd (generate_icons sample_env (sample_world sample_icon) ''icon.png'')
   \<and> saves (new_events (sample_world sample_icon)
        (fst (generate_icons sample_env (sample_world sample_icon) ''icon.png''))) = []"
proof -
  let ?p = "ios_output_path 1024 1024 ''ios-marketing''"
  obtain x where x: "Image_resize sample_env cmyk_icon (1024, 1024) = Inr x"
    and m: "im_mode x = ''CMYK''"
    by (simp add: sample_env_def sample_resize_def cmyk_icon_def plain_def)
  have "\<forall>w'. dirs w' = dirs (sample_ready cmyk_icon) \<longrightarrow>
      fs_error w' (Save ?p x) \<noteq> None \<or> os_error sample_env w' (Save ?p x) \<noteq> None"
    using m by (simp add: sample_env_def sample_os_error_def)
  from generate_icons_refused [OF sample_exists sample_open x this]
  have a: "\<not> snd (generate_icons sample_env (sample_ready cmyk_icon) ''icon.png'')
    \<and> saves (new_events (sample_ready cmyk_icon)
        (fst (generate_icons sample_env (sample_ready cmyk_icon) ''icon.png''))) = []" .
  let ?w = "sample_world sample_icon"
  have e: "path_exists ?w ''icon.png''"
    by (simp add: path_exists_def is_file_def sample_world_def)
  have opn: "open_image sample_env ?w ''icon.png'' = Inr sample_icon"
    by (simp add: open_image_def sample_world_def sample_env_def sample_open_def)
  obtain y where y: "Image_resize sample_env sample_icon (1024, 1024) = Inr y"
    by (simp add: sample_env_def sample_resize_def)
  have "dirname ?p = ''assets/app_icons/generated/ios''"
    by (rule dirname_ios_output_path) simp
  then have "\<forall>w'. dirs w' = dirs ?w \<longrightarrow>
      fs_error w' (Save ?p y) \<noteq> None \<or> os_error sample_env w' (Save ?p y) \<noteq> None"
    by (simp add: write_error_def is_dir_def sample_world_def)
  from generate_icons_refused [OF e opn y this]
  have b: "\<not> snd (generate_icons sample_env ?w ''icon.png'')
    \<and> saves (new_events ?w (fst (generate_icons sample_env ?w ''icon.png''))) = []" .
  from a b e opn show ?thesis
    using sample_exists [of cmyk_icon] sample_open [of cmyk_icon] by simp
qed

text \<open>
  C2. Every image that \<open>generate_icons\<close> saves, whether it goes on to return True or
  not, is the source image resized by the library to the dimensions that the table lists
  for its path; except the feature graphic, which is a new RGB canvas of 1024 by 500 in
  the colour #1976D2 with the source, resized to 400 by 400, pasted at (312, 50), under
  its own mask when its mode is RGBA.
\<close>

theorem saved_images:
  assumes "open_image env w src = Inr img"
    and "(p, x) \<in> set (saves (new_events w (fst (generate_icons env w src))))"
  shows "(\<exists>(width, height, name) \<in> set ICON_SIZES_ios.
        p = ios_output_path width height name \<and> Image_resize env img (width, height) = Inr x)
    \<or> (\<exists>(width, height, density) \<in> set ICON_SIZES_android.
        (p = android_output_path width height density \<or> p = android_path density
           \<or> p = android_round_path density)
        \<and> Image_resize env img (width, height) = Inr x)
    \<or> (\<exists>(width, height, name) \<in> set ICON_SIZES_store.
        (width, height) \<noteq> (1024, 500) \<and> p = store_output_path width height name
        \<and> Image_resize env img (width, height) = Inr x)
    \<or> (p = feature_graphic_path
        \<and> (\<exists>canvas icon.
              Image_new env ''RGB'' (1024, 500) ''#1976D2'' = Inr canvas
              \<and> Image_resize env img (400, 400) = Inr icon
              \<and> Image_paste env canvas icon (312, 50)
                   (if Image_mode env icon = ''RGBA'' then Some icon else None) = Inr x))"
  using assms by (intro asset_explicit generate_icons_saves_assets)

theorem saved_images_witness:
  "open_image sample_env (sample_ready sample_icon) ''icon.png'' = Inr sample_icon
   \<and> (feature_graphic_path, sample_feature_graphic sample_icon)
       \<in> set (saves (new_events (sample_ready sample_icon)
            (fst (generate_icons sample_env (sample_ready sample_icon) ''icon.png''))))
   \<and> ((\<exists>(width, height, name) \<in> set ICON_SIZES_ios.
        feature_graphic_path = ios_output_path width height name
        \<and> Image_resize sample_env sample_icon (width, height)
            = Inr (sample_feature_graphic sample_icon))
    \<or> (\<exists>(width, height, density) \<in> set ICON_SIZES_android.
        (feature_graphic_path = android_output_path width height density
           \<or> feature_graphic_path = android_path density
           \<or> feature_graphic_path = android_round_path density)
        \<and> Image_resize sample_env sample_icon (width, height)
            = Inr (sample_feature_graphic sample_icon))
    \<or> (\<exists>(width, height, name) \<in> set ICON_SIZES_store.
        (width, height) \<noteq> (1024, 500)
        \<and> feature_graphic_path = store_output_path width height name
        \<and> Image_resize sample_env sample_icon (width, height)
            = Inr (sample_feature_graphic sample_icon))
    \<or> (feature_graphic_path = feature_graphic_path
        \<and> (\<exists>canvas icon.
              Image_new sample_env ''RGB'' (1024, 500) ''#1976D2'' = Inr canvas
              \<and> Image_resize sample_env sample_icon (400, 400) = Inr icon
              \<and> Image_paste sample_env canvas icon (312, 50)
                   (if Image_mode sample_env icon = ''RGBA'' then Some icon else None)
                  = Inr (sample_feature_graphic sample_icon))))"
  using saved_images [OF sample_open sample_feature_saved] sample_open sample_feature_saved
  by (intro conjI)

text \<open>
  As the claim states it, it fails at the feature graphic: for a white source the file
  feature_graphic_1024x500.png holds a canvas whose corner is #1976D2, not the source
  resized to 1024 by 500, which is white.
\<close>

theorem saved_images_counterexample:
  "(feature_graphic_path, sample_feature_graphic sample_icon)
       \<in> set (saves (new_events (sample_ready sample_icon)
            (fst (generate_icons sample_env (sample_ready sample_icon) ''icon.png''))))
   \<and> Image_resize sample_env sample_icon (1024, 500)
       \<noteq> Inr (sample_feature_graphic sample_icon)
   \<and> im_pixel (sample_feature_graphic sample_icon) (0, 0) = ''#1976D2''
   \<and> im_pixel (projr (Image_resize sample_env sample_icon (1024, 500))) (0, 0) = ''#FFFFFF''"
proof -
  have a: "im_pixel (sample_feature_graphic sample_icon) (0, 0) = ''#1976D2''"
    by (simp add: sample_feature_graphic_def)
  have b: "im_pixel (projr (Image_resize sample_env sample_icon (1024, 500))) (0, 0)
      = ''#FFFFFF''"
    by (simp add: sample_env_def sample_resize_def sample_icon_def plain_def)
  have "Image_resize sample_env sample_icon (1024, 500)
      \<noteq> Inr (sample_feature_graphic sample_icon)"
  proof
    assume "Image_resize sample_env sample_icon (1024, 500)
      = Inr (sample_feature_graphic sample_icon)"
    with b have "im_pixel (sample_feature_graphic sample_icon) (0, 0) = ''#FFFFFF''"
      by simp
    with a show False by simp
  qed
  with sample_feature_saved a b show ?thesis by (intro conjI)
qed

text \<open>
  C3. A source image of any dimensions is accepted. When the source exists and loads,
  \<open>generate_icons\<close> prints a warning when its size is not (1024, 1024) and in either case
  goes on with the iOS icons; and when the library calls on the image succeed and every
  asset can be saved, it returns True after the effects that a 1024 by 1024 source has,
  the warning apart.
\<close>

theorem generate_icons_any_size:
  assumes "path_exists w src" and "open_image env w src = Inr img"
  shows "(\<exists>rest. new_events w (fst (generate_icons env w src))
            = (if Image_size env img \<noteq> (1024, 1024)
               then [Print (warning_sign @ ''  Warning: Source image is ''
                              @ str_size (Image_size env img)
                              @ '', recommended: (1024, 1024)'')]
               else [])
              @ Print (newline @ red_apple @ '' Generating iOS icons...'') # rest)
    \<and> (library_ok env img \<and> (\<forall>p x. asset env img p x \<longrightarrow> savable env w p x)
          \<longrightarrow> generate_icons env w src = (run (gen_events env img) w, True))"
proof (intro conjI impI)
  show "\<exists>rest. new_events w (fst (generate_icons env w src))
            = (if Image_size env img \<noteq> (1024, 1024)
               then [Print (warning_sign @ ''  Warning: Source image is ''
                              @ str_size (Image_size env img)
                              @ '', recommended: (1024, 1024)'')]
               else [])
              @ Print (newline @ red_apple @ '' Generating iOS icons...'') # rest"
    using generate_icons_start [OF assms] unfolding size_warning_def ios_banner_def .
next
  assume "library_ok env img \<and> (\<forall>p x. asset env img p x \<longrightarrow> savable env w p x)"
  then show "generate_icons env w src = (run (gen_events env img) w, True)"
    using generate_icons_succeeds [OF assms] by blast
qed

theorem generate_icons_any_size_witness:
  "path_exists (sample_ready sample_icon) ''icon.png''
   \<and> open_image sample_env (sample_ready sample_icon) ''icon.png'' = Inr sample_icon
   \<and> Image_size sample_env sample_icon = (512, 512)
   \<and> (\<exists>rest. new_events (sample_ready sample_icon)
          (fst (generate_icons sample_env (sample_ready sample_icon) ''icon.png''))
         = Print (warning_sign @ ''  Warning: Source image is (512, 512)''
                    @ '', recommended: (1024, 1024)'')
           # Print (newline @ red_apple @ '' Generating iOS icons...'') # rest)"
proof -
  have s: "Image_size sample_env sample_icon = (512, 512)"
    by (simp add: sample_env_def sample_icon_def plain_def)
  have "str_size (512, 512) = ''(512, 512)''"
    by (simp add: str_size_def)
  with generate_icons_any_size [OF sample_exists sample_open, of sample_icon] s
  have "\<exists>rest. new_events (sample_ready sample_icon)
          (fst (generate_icons sample_env (sample_ready sample_icon) ''icon.png''))
         = Print (warning_sign @ ''  Warning: Source image is (512, 512)''
                    @ '', recommended: (1024, 1024)'')
           # Print (newline @ red_apple @ '' Generating iOS icons...'') # rest"
    by simp
  with sample_exists sample_open s show ?thesis by (intro conjI)
qed

text \<open>
  As the claim states it, it fails: a source of 512 by 512 pixels is accepted, and
  \<open>generate_icons\<close> saves all 29 assets from it and returns True.
\<close>

theorem generate_icons_any_size_counterexample:
  "Image_size sample_env sample_icon = (512, 512)
   \<and> open_image sample_env (sample_ready sample_icon) ''icon.png'' = Inr sample_icon
   \<and> snd (generate_icons sample_env (sample_ready sample_icon) ''icon.png'')
   \<and> length (saves (new_events (sample_ready sample_icon)
        (fst (generate_icons sample_env (sample_ready sample_icon) ''icon.png'')))) = 29"
proof -
  have "Image_size sample_env sample_icon = (512, 512)"
    by (simp add: sample_env_def sample_icon_def plain_def)
  moreover have "length (saves (gen_events sample_env sample_icon)) = 29"
    using arg_cong [OF saves_gen_events [of sample_env sample_icon], of length]
    unfolding asset_paths_eq by simp
  ultimately show ?thesis
    using sample_open [of sample_icon] by (simp add: sample_icon_generate)
qed


text \<open>
  C4. \<open>generate_icons\<close> returns True exactly when the source path exists, the library
  opens it, every resize and the feature graphic (new, resize, paste) return an image,
  and every save, attempted in the world that the saves before it left, raises nothing.
  The \<open>try\<close> block raises exactly when one of the last three fails, and
  \<open>generate_icons\<close> returns False exactly when the path does not exist or the
  \<open>try\<close> block raises. When the path does not exist, its only effect is the line it
  prints: no file is written and no directory made. Strings are the bytes sent to
  standard output, so that printing a line raises nothing.
\<close>

theorem generate_icons_returns:
  "snd (generate_icons env w src)
     = (path_exists w src
        \<and> (\<exists>img. open_image env w src = Inr img \<and> library_ok env img
              \<and> performable env w (gen_events env img)))
   \<and> (snd (generate_body env w src) = None)
     = (\<exists>img. open_image env w src = Inr img \<and> library_ok env img
              \<and> performable env w (gen_events env img))
   \<and> (\<not> snd (generate_icons env w src))
     = (\<not> path_exists w src \<or> (\<exists>e. snd (generate_body env w src) = Some e))
   \<and> (\<not> path_exists w src \<longrightarrow>
        new_events w (fst (generate_icons env w src))
          = [Print (cross_mark @ '' Source image not found: '' @ src)]
        \<and> files (fst (generate_icons env w src)) = files w
        \<and> dirs (fst (generate_icons env w src)) = dirs w)"
proof -
  have body: "(snd (generate_body env w src) = None)
     = (\<exists>img. open_image env w src = Inr img \<and> library_ok env img
              \<and> performable env w (gen_events env img))"
  proof (cases "open_image env w src")
    case (Inl e)
    then show ?thesis by (simp add: generate_body_def)
  next
    case (Inr img)
    from generate_body_None_iff [OF this] Inr show ?thesis by simp
  qed
  have ret: "(\<not> snd (generate_icons env w src))
     = (\<not> path_exists w src \<or> (\<exists>e. snd (generate_body env w src) = Some e))"
  proof (cases "path_exists w src")
    case False
    then show ?thesis by (simp add: generate_icons_def)
  next
    case True
    then show ?thesis
      by (cases "generate_body env w src")
        (auto simp: generate_icons_def split: option.splits)
  qed
  have "snd (generate_icons env w src)
      = (path_exists w src \<and> snd (generate_body env w src) = None)"
    using ret by auto
  then have main: "snd (generate_icons env w src)
     = (path_exists w src
        \<and> (\<exists>img. open_image env w src = Inr img \<and> library_ok env img
              \<and> performable env w (gen_events env img)))"
    unfolding body .
  have missing: "\<not> path_exists w src \<longrightarrow>
        new_events w (fst (generate_icons env w src))
          = [Print (cross_mark @ '' Source image not found: '' @ src)]
        \<and> files (fst (generate_icons env w src)) = files w
        \<and> dirs (fst (generate_icons env w src)) = dirs w"
    by (simp add: generate_icons_def print_def new_events_def)
  from main body ret missing show ?thesis by (intro conjI)
qed

theorem generate_icons_returns_witness:
  "\<not> path_exists (sample_ready sample_icon) ''missing.png''
   \<and> \<not> snd (generate_icons sample_env (sample_ready sample_icon) ''missing.png'')
   \<and> new_events (sample_ready sample_icon)
        (fst (generate_icons sample_env (sample_ready sample_icon) ''missing.png''))
       = [Print (cross_mark @ '' Source image not found: missing.png'')]
   \<and> path_exists (sample_ready sample_icon) ''icon.png''
   \<and> open_image sample_env (sample_ready sample_icon) ''icon.png'' = Inr sample_icon
   \<and> library_ok sample_env sample_icon
   \<and> performable sample_env (sample_ready sample_icon) (gen_events sample_env sample_icon)
   \<and> snd (generate_icons sample_env (sample_ready sample_icon) ''icon.png'')
   \<and> path_exists (sample_ready cmyk_icon) ''icon.png''
   \<and> open_image sample_env (sample_ready cmyk_icon) ''icon.png'' = Inr cmyk_icon
   \<and> library_ok sample_env cmyk_icon
   \<and> \<not> performable sample_env (sample_ready cmyk_icon) (gen_events sample_env cmyk_icon)
   \<and> \<not> snd (generate_icons sample_env (sample_ready cmyk_icon) ''icon.png'')"
proof -
  have "''missing.png'' \<notin> set all_dirs" unfolding all_dirs_eq by simp
  then have m: "\<not> path_exists (sample_ready sample_icon) ''missing.png''"
    by (simp add: path_exists_def is_file_def files_sample_ready is_dir_sample_ready)
  note t = generate_icons_returns [of sample_env "sample_ready sample_icon" "''missing.png''"]
  from t m have a: "\<not> snd (generate_icons sample_env (sample_ready sample_icon) ''missing.png'')"
    by blast
  from t m have b: "new_events (sample_ready sample_icon)
        (fst (generate_icons sample_env (sample_ready sample_icon) ''missing.png''))
       = [Print (cross_mark @ '' Source image not found: missing.png'')]"
    by simp
  have c: "snd (generate_icons sample_env (sample_ready sample_icon) ''icon.png'')"
    by (simp add: sample_icon_generate)
  note u = generate_icons_returns [of sample_env "sample_ready sample_icon" "''icon.png''"]
  from u c have "\<exists>img. open_image sample_env (sample_ready sample_icon) ''icon.png'' = Inr img
      \<and> library_ok sample_env img
      \<and> performable sample_env (sample_ready sample_icon) (gen_events sample_env img)"
    by blast
  then have d: "performable sample_env (sample_ready sample_icon)
      (gen_events sample_env sample_icon)"
    by (simp add: sample_open)
  let ?p = "ios_output_path 1024 1024 ''ios-marketing''"
  obtain x where x: "Image_resize sample_env cmyk_icon (1024, 1024) = Inr x"
    and md: "im_mode x = ''CMYK''"
    by (simp add: sample_env_def sample_resize_def cmyk_icon_def plain_def)
  have "\<forall>w'. dirs w' = dirs (sample_ready cmyk_icon) \<longrightarrow>
      fs_error w' (Save ?p x) \<noteq> None \<or> os_error sample_env w' (Save ?p x) \<noteq> None"
    using md by (simp add: sample_env_def sample_os_error_def)
  from generate_icons_refused [OF sample_exists sample_open x this]
  have e: "\<not> snd (generate_icons sample_env (sample_ready cmyk_icon) ''icon.png'')"
    by (rule conjunct1)
  note v = generate_icons_returns [of sample_env "sample_ready cmyk_icon" "''icon.png''"]
  from v e have "\<not> (path_exists (sample_ready cmyk_icon) ''icon.png''
      \<and> (\<exists>img. open_image sample_env (sample_ready cmyk_icon) ''icon.png'' = Inr img
            \<and> library_ok sample_env img
            \<and> performable sample_env (sample_ready cmyk_icon) (gen_events sample_env img)))"
    by blast
  then have f: "\<not> performable sample_env (sample_ready cmyk_icon)
      (gen_events sample_env cmyk_icon)"
    by (simp add: sample_exists sample_open sample_library_ok)
  from m a b c d e f sample_exists [of sample_icon] sample_open [of sample_icon]
    sample_exists [of cmyk_icon] sample_open [of cmyk_icon]
    sample_library_ok [of sample_icon] sample_library_ok [of cmyk_icon]
  show ?thesis by (intro conjI)
qed

text \<open>
  C9. In every run of \<open>generate_icons\<close>, whether it goes on to return True or not, and
  for every density of \<open>ICON_SIZES['android']\<close>: when the run has saved an image as
  \<open>ic_launcher_round.png\<close> in \<open>mipmap-<density>\<close>, it has saved the same image as
  \<open>ic_launcher.png\<close> beside it, both files hold that image when the run ends, and the
  image is the source resized to the dimensions of the density. A run that returns True
  has saved the round icon of every density.
\<close>

theorem round_icon_same:
  assumes "(width, height, density) \<in> set ICON_SIZES_android"
  shows "(\<forall>x. Save (android_round_path density) x
              \<in> set (new_events w (fst (generate_icons env w src))) \<longrightarrow>
            Save (android_path density) x
              \<in> set (new_events w (fst (generate_icons env w src)))
            \<and> map_of (files (fst (generate_icons env w src))) (android_round_path density)
                = Some (PNG x)
            \<and> map_of (files (fst (generate_icons env w src))) (android_path density)
                = Some (PNG x)
            \<and> (\<exists>img. open_image env w src = Inr img
                  \<and> Image_resize env img (width, height) = Inr x))
    \<and> (snd (generate_icons env w src) \<longrightarrow>
          (\<exists>x. Save (android_round_path density) x
              \<in> set (new_events w (fst (generate_icons env w src)))))"
proof (intro conjI allI impI)
  fix x
  assume m: "Save (android_round_path density) x
      \<in> set (new_events w (fst (generate_icons env w src)))"
  let ?goal = "Save (android_path density) x
              \<in> set (new_events w (fst (generate_icons env w src)))
            \<and> map_of (files (fst (generate_icons env w src))) (android_round_path density)
                = Some (PNG x)
            \<and> map_of (files (fst (generate_icons env w src))) (android_path density)
                = Some (PNG x)
            \<and> (\<exists>img. open_image env w src = Inr img
                  \<and> Image_resize env img (width, height) = Inr x)"
  have "?goal"
  proof (cases rule: generate_icons_cases [of w src env])
    case missing
    from m have "Save (android_round_path density) x \<in> set [Print (not_found_line src)]"
      unfolding missing(2) by (simp only: fst_conv new_events_run)
    then show ?thesis by simp
  next
    case (unreadable e)
    from m have "Save (android_round_path density) x \<in> set [Print (error_line e)]"
      unfolding unreadable(3) by (simp only: fst_conv new_events_run)
    then show ?thesis by simp
  next
    case (failed img evs e)
    from failed(6) obtain rest where G: "gen_events env img = evs @ rest" by blast
    from m have "Save (android_round_path density) x \<in> set (evs @ [Print (error_line e)])"
      unfolding failed(5) by (simp only: fst_conv new_events_run)
    then have me: "Save (android_round_path density) x \<in> set evs" by simp
    note r = round_icon_saved(1,2) [OF G failed(3) assms me]
      round_icon_saved(3,4) [OF G failed(3) assms me, where ls = "[error_line e]" and w = w]
    from r(1) failed(2) have "\<exists>img. open_image env w src = Inr img
        \<and> Image_resize env img (width, height) = Inr x"
      by blast
    with r(2,3,4) show ?thesis
      unfolding failed(5) by (simp only: fst_conv new_events_run) simp
  next
    case (succeeded img)
    have G: "gen_events env img = gen_events env img @ []" by simp
    from m have me: "Save (android_round_path density) x \<in> set (gen_events env img)"
      unfolding succeeded(5) by (simp only: fst_conv new_events_run)
    note r = round_icon_saved(1,2) [OF G succeeded(3) assms me]
      round_icon_saved(3,4) [OF G succeeded(3) assms me, where ls = "[]" and w = w]
    from r(1) succeeded(2) have "\<exists>img. open_image env w src = Inr img
        \<and> Image_resize env img (width, height) = Inr x"
      by blast
    with r(2,3,4) show ?thesis
      unfolding succeeded(5) by (simp only: fst_conv new_events_run) simp
  qed
  then show "Save (android_path density) x
      \<in> set (new_events w (fst (generate_icons env w src)))"
    and "map_of (files (fst (generate_icons env w src))) (android_round_path density)
      = Some (PNG x)"
    and "map_of (files (fst (generate_icons env w src))) (android_path density)
      = Some (PNG x)"
    and "\<exists>img. open_image env w src = Inr img
      \<and> Image_resize env img (width, height) = Inr x"
    by simp_all
next
  assume "snd (generate_icons env w src)"
  then obtain img where
    run: "fst (generate_icons env w src) = run (gen_events env img) w"
    by (rule generate_icons_True)
  from android_events_member [OF assms, of env img]
  have "Save (android_round_path density) (resized env img (width, height))
      \<in> set (gen_events env img)"
    by (simp add: gen_events_android)
  then show "\<exists>x. Save (android_round_path density) x
      \<in> set (new_events w (fst (generate_icons env w src)))"
    unfolding run by auto
qed

theorem round_icon_same_witness:
  "(192, 192, ''xxxhdpi'') \<in> set ICON_SIZES_android
   \<and> snd (generate_icons sample_env (sample_ready sample_icon) ''icon.png'')
   \<and> (\<exists>x. Save (android_round_path ''xxxhdpi'') x
          \<in> set (new_events (sample_ready sample_icon)
                (fst (generate_icons sample_env (sample_ready sample_icon) ''icon.png'')))
        \<and> Save (android_path ''xxxhdpi'') x
          \<in> set (new_events (sample_ready sample_icon)
                (fst (generate_icons sample_env (sample_ready sample_icon) ''icon.png'')))
        \<and> map_of (files (fst (generate_icons sample_env (sample_ready sample_icon)
              ''icon.png''))) (android_round_path ''xxxhdpi'') = Some (PNG x)
        \<and> map_of (files (fst (generate_icons sample_env (sample_ready sample_icon)
              ''icon.png''))) (android_path ''xxxhdpi'') = Some (PNG x)
        \<and> Image_resize sample_env sample_icon (192, 192) = Inr x)"
proof -
  let ?w = "sample_ready sample_icon"
  let ?w' = "fst (generate_icons sample_env ?w ''icon.png'')"
  have h: "snd (generate_icons sample_env ?w ''icon.png'')"
    by (simp add: sample_icon_generate)
  have m: "(192, 192, ''xxxhdpi'') \<in> set ICON_SIZES_android"
    by (simp add: ICON_SIZES_android_def)
  note t = round_icon_same [OF m, of ?w sample_env "''icon.png''"]
  from t h obtain x where
    x: "Save (android_round_path ''xxxhdpi'') x \<in> set (new_events ?w ?w')"
    by blast
  with t have a: "Save (android_path ''xxxhdpi'') x \<in> set (new_events ?w ?w')"
    and b: "map_of (files ?w') (android_round_path ''xxxhdpi'') = Some (PNG x)"
    and c: "map_of (files ?w') (android_path ''xxxhdpi'') = Some (PNG x)"
    and d: "\<exists>img. open_image sample_env ?w ''icon.png'' = Inr img
      \<and> Image_resize sample_env img (192, 192) = Inr x"
    by blast+
  from d have "Image_resize sample_env sample_icon (192, 192) = Inr x"
    by (simp add: sample_open)
  with x a b c have "\<exists>x. Save (android_round_path ''xxxhdpi'') x \<in> set (new_events ?w ?w')
      \<and> Save (android_path ''xxxhdpi'') x \<in> set (new_events ?w ?w')
      \<and> map_of (files ?w') (android_round_path ''xxxhdpi'') = Some (PNG x)
      \<and> map_of (files ?w') (android_path ''xxxhdpi'') = Some (PNG x)
      \<and> Image_resize sample_env sample_icon (192, 192) = Inr x"
    by blast
  with m h show ?thesis by (intro conjI)
qed

end
